theory Spec2Isabelle
  imports Complex_Main "HOL-Library.AList"
begin

section \<open>Conventions of the embedding\<close>

text \<open>
  The TypeScript sources are embedded shallowly. JavaScript strings are \<open>string\<close>
  (byte strings; the sources only inspect ASCII keywords), millisecond time stamps read
  from \<open>Date.now()\<close> are \<open>int\<close> and are passed in as arguments, counters are \<open>nat\<close>,
  and the remaining JavaScript numbers (success rates, eviction scores) are \<open>real\<close>, so
  arithmetic on them is exact. A JavaScript \<open>Map\<close> is an association list in insertion
  order. \<open>undefined\<close> and \<open>null\<close> are \<open>None\<close>. An exception is the \<open>Inl\<close> of a sum
  or an explicit error component of the result.
\<close>

subsection \<open>JavaScript string helpers\<close>

text \<open>\<open>a || b\<close> on strings that may be undefined: the empty string is falsy.\<close>

definition truthy :: "string option \<Rightarrow> bool" where
  "truthy v = (case v of None \<Rightarrow> False | Some s \<Rightarrow> s \<noteq> [])"

definition js_or :: "string option \<Rightarrow> string option \<Rightarrow> string option" where
  "js_or a b = (if truthy a then a else b)"

text \<open>Interpolation into a template literal: \<open>undefined\<close> prints as the word.\<close>

definition js_str :: "string option \<Rightarrow> string" where
  "js_str v = (case v of None \<Rightarrow> ''undefined'' | Some s \<Rightarrow> s)"

text \<open>\<open>s.includes(pat)\<close>: \<open>pat\<close> occurs in \<open>s\<close> as a contiguous substring.\<close>

fun str_includes :: "string \<Rightarrow> string \<Rightarrow> bool" where
  "str_includes [] pat = (pat = [])"
| "str_includes (c # cs) pat = (take (length pat) (c # cs) = pat \<or> str_includes cs pat)"

text \<open>\<open>xs.join(sep)\<close>.\<close>

fun join :: "string \<Rightarrow> string list \<Rightarrow> string" where
  "join sep [] = []"
| "join sep [x] = x"
| "join sep (x # y # ys) = x @ sep @ join sep (y # ys)"

text \<open>\<open>toLowerCase()\<close> on the ASCII letters.\<close>

definition lower_char :: "char \<Rightarrow> char" where
  "lower_char c =
     (let n = (of_char c :: nat) in
      if 65 \<le> n \<and> n \<le> 90 then ''abcdefghijklmnopqrstuvwxyz'' ! (n - 65) else c)"

definition toLowerCase :: "string \<Rightarrow> string" where
  "toLowerCase s = map lower_char s"

text \<open>Decimal rendering of a counter, as string interpolation of a number does.\<close>

function string_of_nat :: "nat \<Rightarrow> string" where
  "string_of_nat n =
     (if n < 10 then [''0123456789'' ! n]
      else string_of_nat (n div 10) @ [''0123456789'' ! (n mod 10)])"
  by pat_completeness auto
termination
  by (relation "measure (\<lambda>n. n)") auto

section \<open>RateLimiter\<close>

text \<open>
  \<open>class RateLimiter\<close>: the list \<open>calls\<close> of permit time stamps, \<open>maxCalls = 10\<close>,
  \<open>timeWindow = 60000\<close>. \<open>canProceed\<close> reads the clock (\<open>now\<close>), prunes, and either
  refuses or records \<open>now\<close>.
\<close>

definition maxCalls :: nat where
  "maxCalls = 10"

definition timeWindow :: int where
  "timeWindow = 60000"

record RateLimiter =
  calls :: "int list"

definition new_RateLimiter :: RateLimiter where
  "new_RateLimiter = \<lparr>calls = []\<rparr>"

definition canProceed :: "int \<Rightarrow> RateLimiter \<Rightarrow> bool \<times> RateLimiter" where
  "canProceed now rl =
     (let pruned = filter (\<lambda>time. now - time < timeWindow) (calls rl) in
      if length pruned \<ge> maxCalls then (False, rl\<lparr>calls := pruned\<rparr>)
      else (True, rl\<lparr>calls := pruned @ [now]\<rparr>))"

text \<open>A sequence of calls, one per clock reading; the answers and the final limiter.\<close>

fun canProceed_run :: "RateLimiter \<Rightarrow> int list \<Rightarrow> bool list \<times> RateLimiter" where
  "canProceed_run rl [] = ([], rl)"
| "canProceed_run rl (now # rest) =
     (let (ok, rl') = canProceed now rl;
          (oks, rl'') = canProceed_run rl' rest
      in (ok # oks, rl''))"

text \<open>The time stamps of the calls that were granted.\<close>

definition permits :: "int list \<Rightarrow> bool list \<Rightarrow> int list" where
  "permits ts oks = map fst (filter snd (zip ts oks))"

text \<open>The rolling window of length \<open>timeWindow\<close> that starts at \<open>a\<close>.\<close>

definition in_window :: "int \<Rightarrow> int \<Rightarrow> bool" where
  "in_window a t = (a \<le> t \<and> t < a + timeWindow)"

section \<open>Workflow recording: data model\<close>

datatype ActionType = Click | Input | Select | Keypress | Navigation

text \<open>
  \<open>interface RecordedElement\<close>; \<open>id\<close>, \<open>name\<close> and \<open>type\<close> carry the prefix \<open>el_\<close>.
\<close>

record RecordedElement =
  tagName :: string
  el_id :: string
  className :: string
  textContent :: string
  el_name :: string
  el_type :: string
  placeholder :: string
  xpath :: string

text \<open>
  The \<open>data?: any\<close> payload of an action is a JSON object with string members
  (\<open>value\<close>, \<open>selectedValue\<close>, \<open>selectedText\<close>, \<open>key\<close>, \<open>toUrl\<close>, ...);
  \<open>data?.k\<close> is \<open>get_member data k\<close>.
\<close>

type_synonym JsObject = "(string \<times> string) list"

definition get_member :: "JsObject option \<Rightarrow> string \<Rightarrow> string option" where
  "get_member d k = (case d of None \<Rightarrow> None | Some obj \<Rightarrow> map_of obj k)"

record RecordedAction =
  timestamp :: int
  atype :: ActionType
  element :: RecordedElement
  data :: "JsObject option"
  url :: string

datatype StepAction = Fill_field | Click_element | Select_option | Key_press | Navigate

record WorkflowStep =
  stepIndex :: nat
  action :: StepAction
  step_element :: RecordedElement
  step_data :: "JsObject option"
  timing :: int
  description :: string

record SavedWorkflow =
  wf_id :: string
  wf_name :: string
  platform :: string
  steps :: "WorkflowStep list"
  recordedAt :: int
  duration :: int
  actionCount :: nat
  optimizedActionCount :: nat
  successRate :: real
  usageCount :: nat

section \<open>WorkflowRecorder.optimizeWorkflow\<close>

text \<open>
  The debounce test of the loop body: \<open>i > 0\<close>, the previous raw action has the same
  type, and the time stamps are less than 100 ms apart. \<open>prev\<close> is \<open>actions[i - 1]\<close>,
  \<open>None\<close> at \<open>i = 0\<close>.
\<close>

definition debounced :: "RecordedAction option \<Rightarrow> RecordedAction \<Rightarrow> bool" where
  "debounced prev a =
     (case prev of None \<Rightarrow> False
      | Some p \<Rightarrow> atype p = atype a \<and> timestamp a - timestamp p < 100)"

text \<open>The five branches on \<open>action.type\<close>; a click step carries no \<open>data\<close>.\<close>

definition to_step :: "int \<Rightarrow> nat \<Rightarrow> RecordedAction \<Rightarrow> WorkflowStep" where
  "to_step startTime k a =
     (case atype a of
        Input \<Rightarrow>
          \<lparr>stepIndex = k, action = Fill_field, step_element = element a, step_data = data a,
           timing = timestamp a - startTime,
           description = ''Fill '' @
             js_str (js_or (js_or (Some (el_name (element a))) (Some (el_type (element a))))
                       (Some ''field'')) @ '': '' @
             js_str (js_or (get_member (data a) ''value'') (Some ''''))\<rparr>
      | Click \<Rightarrow>
          \<lparr>stepIndex = k, action = Click_element, step_element = element a, step_data = None,
           timing = timestamp a - startTime,
           description = ''Click '' @ tagName (element a) @ '': '' @
             js_str (js_or (js_or (Some (textContent (element a))) (Some (el_id (element a))))
                       (Some (className (element a))))\<rparr>
      | Select \<Rightarrow>
          \<lparr>stepIndex = k, action = Select_option, step_element = element a, step_data = data a,
           timing = timestamp a - startTime,
           description = ''Select: '' @
             js_str (js_or (get_member (data a) ''selectedText'') (get_member (data a) ''selectedValue''))\<rparr>
      | Keypress \<Rightarrow>
          \<lparr>stepIndex = k, action = Key_press, step_element = element a, step_data = data a,
           timing = timestamp a - startTime,
           description = ''Press key: '' @ js_str (get_member (data a) ''key'')\<rparr>
      | Navigation \<Rightarrow>
          \<lparr>stepIndex = k, action = Navigate, step_element = element a, step_data = data a,
           timing = timestamp a - startTime,
           description = ''Navigate to: '' @ js_str (get_member (data a) ''toUrl'')\<rparr>)"

text \<open>
  The \<open>for\<close> loop over the raw actions: \<open>prev\<close> is the raw predecessor, \<open>k\<close> the
  running \<open>stepIndex\<close>; the result lists the pushed steps in order.
\<close>

fun optimize_loop ::
  "int \<Rightarrow> RecordedAction option \<Rightarrow> nat \<Rightarrow> RecordedAction list \<Rightarrow> WorkflowStep list" where
  "optimize_loop startTime prev k [] = []"
| "optimize_loop startTime prev k (a # rest) =
     (if debounced prev a then optimize_loop startTime (Some a) k rest
      else to_step startTime k a # optimize_loop startTime (Some a) (Suc k) rest)"

definition optimizeWorkflow :: "int \<Rightarrow> RecordedAction list \<Rightarrow> WorkflowStep list" where
  "optimizeWorkflow startTime actions = optimize_loop startTime None 0 actions"

text \<open>
  The specification's reading of the debounce rule, stated on indices of the raw list:
  action \<open>i\<close> is dropped when \<open>i > 0\<close>, it has the type of action \<open>i - 1\<close> and their
  time stamps differ by less than 100.
\<close>

definition dropped_at :: "RecordedAction list \<Rightarrow> nat \<Rightarrow> bool" where
  "dropped_at actions i =
     (0 < i \<and> atype (actions ! (i - 1)) = atype (actions ! i) \<and>
      timestamp (actions ! i) - timestamp (actions ! (i - 1)) < 100)"

definition kept_actions :: "RecordedAction list \<Rightarrow> RecordedAction list" where
  "kept_actions actions =
     map (\<lambda>i. actions ! i) (filter (\<lambda>i. \<not> dropped_at actions i) [0..<length actions])"

text \<open>The same loop, returning the raw actions it keeps instead of the steps.\<close>

fun kept_loop :: "RecordedAction option \<Rightarrow> RecordedAction list \<Rightarrow> RecordedAction list" where
  "kept_loop prev [] = []"
| "kept_loop prev (a # rest) =
     (if debounced prev a then kept_loop (Some a) rest else a # kept_loop (Some a) rest)"

section \<open>WorkflowExecutor\<close>

subsection \<open>The page-control collaborator\<close>

text \<open>
  A live element of \<open>state.selectorMap\<close>: its \<open>attributes\<close> object, its
  \<open>textContent\<close> and its \<open>highlightIndex\<close>, each of which may be undefined.
\<close>

record DOMElement =
  attributes :: "JsObject option"
  dom_textContent :: "string option"
  highlightIndex :: "nat option"

type_synonym SelectorMap = "(nat \<times> DOMElement) list"

text \<open>The calls the executor dispatches to the page object.\<close>

datatype PageCall =
  InputTextElementNode DOMElement string
| ClickElementNode DOMElement
| SelectDropdownOption "nat option" string
| SendKeys string
| NavigateTo string

text \<open>
  The page object is a parameter: \<open>'p\<close> is the state of the live page,
  \<open>getState\<close> throws (\<open>Inl\<close>), returns a state without \<open>selectorMap\<close>
  (\<open>Inr None\<close>) or returns the map; \<open>perform\<close> runs a dispatched call, which throws
  or yields the next page state.
\<close>

record 'p PageApi =
  getState :: "'p \<Rightarrow> string + SelectorMap option"
  perform :: "PageCall \<Rightarrow> 'p \<Rightarrow> string + 'p"

text \<open>The running page together with the log of calls dispatched to it so far.\<close>

type_synonym 'p PageRun = "'p \<times> PageCall list"

text \<open>
  One dispatched call. The first component is the exception it threw, if any; the call
  is logged either way.
\<close>

definition dispatch :: "'p PageApi \<Rightarrow> PageCall \<Rightarrow> 'p PageRun \<Rightarrow> string option \<times> 'p PageRun" where
  "dispatch api c run =
     (case perform api c (fst run) of
        Inl err \<Rightarrow> (Some err, (fst run, snd run @ [c]))
      | Inr p' \<Rightarrow> (None, (p', snd run @ [c])))"

subsection \<open>findElement\<close>

text \<open>
  The \<open>for\<close> loop over \<open>state.selectorMap.entries()\<close>: for each entry in map order the
  three tests (id, name, text) are tried and the first element passing any of them is
  returned.
\<close>

fun findElement_loop :: "RecordedElement \<Rightarrow> SelectorMap \<Rightarrow> DOMElement option" where
  "findElement_loop elementData [] = None"
| "findElement_loop elementData ((index, el) # rest) =
     (if el_id elementData \<noteq> [] \<and>
         get_member (attributes el) ''id'' = Some (el_id elementData) then Some el
      else if el_name elementData \<noteq> [] \<and>
         get_member (attributes el) ''name'' = Some (el_name elementData) then Some el
      else if textContent elementData \<noteq> [] \<and>
         (case dom_textContent el of None \<Rightarrow> False
          | Some t \<Rightarrow> str_includes t (take 50 (textContent elementData))) then Some el
      else findElement_loop elementData rest)"

definition findElement :: "'p PageApi \<Rightarrow> 'p \<Rightarrow> RecordedElement \<Rightarrow> string + DOMElement option" where
  "findElement api p elementData =
     (case getState api p of
        Inl err \<Rightarrow> Inl err
      | Inr None \<Rightarrow> Inr None
      | Inr (Some selectorMap) \<Rightarrow> Inr (findElement_loop elementData selectorMap))"

text \<open>
  The three match rules of the specification, each over the whole snapshot, for the
  comparison with \<open>findElement_loop\<close>.
\<close>

definition id_match :: "RecordedElement \<Rightarrow> DOMElement \<Rightarrow> bool" where
  "id_match elementData el =
     (el_id elementData \<noteq> [] \<and> get_member (attributes el) ''id'' = Some (el_id elementData))"

definition name_match :: "RecordedElement \<Rightarrow> DOMElement \<Rightarrow> bool" where
  "name_match elementData el =
     (el_name elementData \<noteq> [] \<and>
      get_member (attributes el) ''name'' = Some (el_name elementData))"

definition text_match :: "RecordedElement \<Rightarrow> DOMElement \<Rightarrow> bool" where
  "text_match elementData el =
     (textContent elementData \<noteq> [] \<and>
      (case dom_textContent el of None \<Rightarrow> False
       | Some t \<Rightarrow> str_includes t (take 50 (textContent elementData))))"

subsection \<open>Steps\<close>

text \<open>
  The profile data that \<open>ResumeManager.getAutoFillData()\<close> returns; the manager is an
  external collaborator, so its answer is part of the world state below.
\<close>

record ResumeData =
  email :: "string option"
  phone :: "string option"
  first_name :: "string option"
  last_name :: "string option"

definition identifiers_of :: "RecordedElement \<Rightarrow> string" where
  "identifiers_of el =
     toLowerCase (join '' '' [el_name el, el_id el, placeholder el])"

definition isResumeField :: "RecordedElement \<Rightarrow> bool" where
  "isResumeField el =
     list_ex (\<lambda>field. str_includes (identifiers_of el) field)
       [''email'', ''phone'', ''first_name'', ''last_name'', ''name'']"

definition getResumeFieldValue :: "RecordedElement \<Rightarrow> ResumeData \<Rightarrow> string option" where
  "getResumeFieldValue el resumeData =
     (let identifiers = identifiers_of el in
      if str_includes identifiers ''email'' then email resumeData
      else if str_includes identifiers ''phone'' then phone resumeData
      else if str_includes identifiers ''first'' \<or> str_includes identifiers ''fname''
        then first_name resumeData
      else if str_includes identifiers ''last'' \<or> str_includes identifiers ''lname''
        then last_name resumeData
      else None)"

text \<open>\<open>a || b\<close> where \<open>b\<close> is a string.\<close>

definition js_or_str :: "string option \<Rightarrow> string \<Rightarrow> string" where
  "js_or_str a b = (case a of None \<Rightarrow> b | Some s \<Rightarrow> if s = [] then b else s)"

text \<open>
  The step handlers. Each returns the exception it threw, if any, and the page run. A
  handler whose element is not found returns normally (\<open>if (!element) return\<close>).
\<close>

definition fillField ::
  "'p PageApi \<Rightarrow> WorkflowStep \<Rightarrow> ResumeData option \<Rightarrow> 'p PageRun \<Rightarrow> string option \<times> 'p PageRun" where
  "fillField api step resumeData run =
     (case findElement api (fst run) (step_element step) of
        Inl err \<Rightarrow> (Some err, run)
      | Inr None \<Rightarrow> (None, run)
      | Inr (Some el) \<Rightarrow>
          (let v = js_or_str (get_member (step_data step) ''value'') '''';
               v' = (case resumeData of
                       None \<Rightarrow> v
                     | Some rd \<Rightarrow>
                         if isResumeField (step_element step)
                         then js_or_str (getResumeFieldValue (step_element step) rd) v
                         else v)
           in dispatch api (InputTextElementNode el v') run))"

definition clickElement :: "'p PageApi \<Rightarrow> WorkflowStep \<Rightarrow> 'p PageRun \<Rightarrow> string option \<times> 'p PageRun" where
  "clickElement api step run =
     (case findElement api (fst run) (step_element step) of
        Inl err \<Rightarrow> (Some err, run)
      | Inr None \<Rightarrow> (None, run)
      | Inr (Some el) \<Rightarrow> dispatch api (ClickElementNode el) run)"

definition selectOption :: "'p PageApi \<Rightarrow> WorkflowStep \<Rightarrow> 'p PageRun \<Rightarrow> string option \<times> 'p PageRun" where
  "selectOption api step run =
     (case findElement api (fst run) (step_element step) of
        Inl err \<Rightarrow> (Some err, run)
      | Inr None \<Rightarrow> (None, run)
      | Inr (Some el) \<Rightarrow>
          (let v = js_or (get_member (step_data step) ''selectedValue'')
                     (get_member (step_data step) ''selectedText'')
           in if truthy v then dispatch api (SelectDropdownOption (highlightIndex el) (js_str v)) run
              else (None, run)))"

definition pressKey :: "'p PageApi \<Rightarrow> WorkflowStep \<Rightarrow> 'p PageRun \<Rightarrow> string option \<times> 'p PageRun" where
  "pressKey api step run =
     (let k = get_member (step_data step) ''key''
      in if truthy k then dispatch api (SendKeys (js_str k)) run else (None, run))"

definition navigate :: "'p PageApi \<Rightarrow> WorkflowStep \<Rightarrow> 'p PageRun \<Rightarrow> string option \<times> 'p PageRun" where
  "navigate api step run =
     (let u = get_member (step_data step) ''toUrl''
      in if truthy u then dispatch api (NavigateTo (js_str u)) run else (None, run))"

definition executeStep ::
  "'p PageApi \<Rightarrow> WorkflowStep \<Rightarrow> ResumeData option \<Rightarrow> 'p PageRun \<Rightarrow> string option \<times> 'p PageRun" where
  "executeStep api step resumeData run =
     (case action step of
        Fill_field \<Rightarrow> fillField api step resumeData run
      | Click_element \<Rightarrow> clickElement api step run
      | Select_option \<Rightarrow> selectOption api step run
      | Key_press \<Rightarrow> pressKey api step run
      | Navigate \<Rightarrow> navigate api step run)"

text \<open>
  The \<open>for (const step of workflow.steps)\<close> loop with its \<open>try\<close>/\<open>catch\<close>:
  \<open>executedSteps++\<close> when \<open>executeStep\<close> returns, nothing when it throws; either way
  the loop goes on with the next step. The pacing delay after a step only waits.
\<close>

fun execute_steps ::
  "'p PageApi \<Rightarrow> ResumeData option \<Rightarrow> WorkflowStep list \<Rightarrow> nat \<Rightarrow> 'p PageRun \<Rightarrow> nat \<times> 'p PageRun" where
  "execute_steps api resumeData [] executed run = (executed, run)"
| "execute_steps api resumeData (step # rest) executed run =
     (case executeStep api step resumeData run of
        (None, run') \<Rightarrow> execute_steps api resumeData rest (Suc executed) run'
      | (Some err, run') \<Rightarrow> execute_steps api resumeData rest executed run')"

subsection \<open>executeWorkflow and the usage statistics\<close>

datatype Speed = Fast | Normal | Slow

record ExecOptions =
  useResumeData :: bool
  skipConfirmation :: bool
  speed :: "Speed option"

text \<open>\<open>baseDelay\<close>, the fixed part of the wait after a step (\<open>speed\<close> defaults to fast).\<close>

definition baseDelay :: "ExecOptions \<Rightarrow> nat" where
  "baseDelay opts =
     (case speed opts of None \<Rightarrow> 100 | Some Fast \<Rightarrow> 100 | Some Normal \<Rightarrow> 300 | Some Slow \<Rightarrow> 800)"

text \<open>
  What an execution can read and change: the \<open>recorded_workflows\<close> document of
  \<open>chrome.storage.local\<close>, the current page as \<open>getCurrentPage()\<close> delivers it
  (\<open>Inl\<close> when that throws), the log of the calls dispatched to the page, and what the
  resume manager would answer.
\<close>

record 'p World =
  recorded_workflows :: "SavedWorkflow list"
  currentPage :: "string + 'p"
  dispatched :: "PageCall list"
  autoFillData :: "ResumeData option"

record ExecResult =
  success :: bool
  message :: string
  executedSteps :: nat

text \<open>
  \<open>WorkflowExecutor.updateWorkflowStats\<close> on the stored list: \<open>find\<close> takes the first
  workflow with the id, \<open>usageCount++\<close> comes first and the new count is used in the
  average.
\<close>

definition bump_stats :: "bool \<Rightarrow> SavedWorkflow \<Rightarrow> SavedWorkflow" where
  "bump_stats ok w =
     (let w1 = w\<lparr>usageCount := usageCount w + 1\<rparr> in
      w1\<lparr>successRate :=
           (successRate w1 * (real (usageCount w1) - 1) + (if ok then 1 else 0)) /
           real (usageCount w1)\<rparr>)"

fun updateWorkflowStats :: "string \<Rightarrow> bool \<Rightarrow> SavedWorkflow list \<Rightarrow> SavedWorkflow list" where
  "updateWorkflowStats workflowId ok [] = []"
| "updateWorkflowStats workflowId ok (w # ws) =
     (if wf_id w = workflowId then bump_stats ok w # ws
      else w # updateWorkflowStats workflowId ok ws)"

definition executeWorkflow ::
  "'p PageApi \<Rightarrow> string \<Rightarrow> ExecOptions \<Rightarrow> 'p World \<Rightarrow> ExecResult \<times> 'p World" where
  "executeWorkflow api workflowId opts w =
     (case find (\<lambda>x. wf_id x = workflowId) (recorded_workflows w) of
        None \<Rightarrow> (\<lparr>success = False, message = ''Workflow not found'', executedSteps = 0\<rparr>, w)
      | Some workflow \<Rightarrow>
          (case currentPage w of
             Inl err \<Rightarrow>
               (\<lparr>success = False, message = ''Execution failed: '' @ err, executedSteps = 0\<rparr>, w)
           | Inr p \<Rightarrow>
               (let resumeData = (if useResumeData opts then autoFillData w else None);
                    (executed, run) =
                      execute_steps api resumeData (steps workflow) 0 (p, dispatched w);
                    stored = updateWorkflowStats workflowId (executed = length (steps workflow))
                               (recorded_workflows w)
                in (\<lparr>success = 0 < executed,
                     message = ''Executed '' @ string_of_nat executed @ ''/'' @
                               string_of_nat (length (steps workflow)) @ '' steps'',
                     executedSteps = executed\<rparr>,
                    w\<lparr>recorded_workflows := stored, currentPage := Inr (fst run),
                      dispatched := snd run\<rparr>))))"

text \<open>
  Any number of executions one after the other. Each request names the workflow, the
  options and the page that \<open>getCurrentPage()\<close> delivers at that moment.
\<close>

fun executeWorkflow_seq ::
  "'p PageApi \<Rightarrow> (string \<times> ExecOptions \<times> (string + 'p)) list \<Rightarrow> 'p World \<Rightarrow> 'p World" where
  "executeWorkflow_seq api [] w = w"
| "executeWorkflow_seq api ((workflowId, opts, pg) # rest) w =
     executeWorkflow_seq api rest (snd (executeWorkflow api workflowId opts (w\<lparr>currentPage := pg\<rparr>)))"

text \<open>Every stored success rate lies in the unit interval.\<close>

definition rates_in_unit :: "SavedWorkflow list \<Rightarrow> bool" where
  "rates_in_unit ws = list_all (\<lambda>w. 0 \<le> successRate w \<and> successRate w \<le> 1) ws"

section \<open>WorkflowSaver\<close>

text \<open>\<open>interface WorkflowStep\<close> and \<open>interface WorkflowPattern\<close> of the saver.\<close>

record PatternStep =
  p_action :: string
  parameters :: JsObject
  p_description :: string
  isAIRequired :: bool
  fallbackAction :: "string option"

record WorkflowPattern =
  p_id :: string
  p_name :: string
  p_platform :: string
  applicationType :: string
  p_steps :: "PatternStep list"
  p_successRate :: real
  averageTime :: int
  createdAt :: string
  p_lastUsed :: string
  p_usageCount :: nat

text \<open>
  The two action runners of the saver act on the page and on the agent's action table.
  They are parameters here: each either throws (\<open>Inl\<close>, with the message) or returns
  the next state of whatever it acts on.
\<close>

record 'w SaverActions =
  executeSimpleAction :: "string \<Rightarrow> JsObject \<Rightarrow> 'w \<Rightarrow> string + 'w"
  executeAIAction :: "string \<Rightarrow> JsObject \<Rightarrow> 'w \<Rightarrow> string + 'w"

text \<open>
  The step loop of \<open>WorkflowSaver.executeWorkflow\<close>: the four branches, the count and
  the list of error messages.
\<close>

fun saver_steps ::
  "'w SaverActions \<Rightarrow> bool \<Rightarrow> PatternStep list \<Rightarrow> nat \<Rightarrow> string list \<Rightarrow> 'w \<Rightarrow>
   nat \<times> string list \<times> 'w" where
  "saver_steps acts useAI [] executed errors w = (executed, errors, w)"
| "saver_steps acts useAI (step # rest) executed errors w =
     (if isAIRequired step \<and> \<not> useAI \<and> truthy (fallbackAction step) then
        (case executeSimpleAction acts (js_str (fallbackAction step)) (parameters step) w of
           Inr w' \<Rightarrow> saver_steps acts useAI rest (Suc executed) errors w'
         | Inl err \<Rightarrow>
             saver_steps acts useAI rest executed
               (errors @ [''Step '' @ string_of_nat (executed + 1) @ '': '' @ err]) w)
      else if \<not> isAIRequired step then
        (case executeSimpleAction acts (p_action step) (parameters step) w of
           Inr w' \<Rightarrow> saver_steps acts useAI rest (Suc executed) errors w'
         | Inl err \<Rightarrow>
             saver_steps acts useAI rest executed
               (errors @ [''Step '' @ string_of_nat (executed + 1) @ '': '' @ err]) w)
      else if useAI then
        (case executeAIAction acts (p_action step) (parameters step) w of
           Inr w' \<Rightarrow> saver_steps acts useAI rest (Suc executed) errors w'
         | Inl err \<Rightarrow>
             saver_steps acts useAI rest executed
               (errors @ [''Step '' @ string_of_nat (executed + 1) @ '': '' @ err]) w)
      else saver_steps acts useAI rest executed errors w)"

text \<open>\<open>WorkflowSaver.saveWorkflow\<close>: replace at \<open>findIndex\<close>, or push.\<close>

fun saver_saveWorkflow :: "WorkflowPattern \<Rightarrow> WorkflowPattern list \<Rightarrow> WorkflowPattern list" where
  "saver_saveWorkflow wfl [] = [wfl]"
| "saver_saveWorkflow wfl (x # xs) =
     (if p_id x = p_id wfl then wfl # xs else x # saver_saveWorkflow wfl xs)"

text \<open>
  \<open>WorkflowSaver.updateWorkflowStats\<close>; \<open>nowIso\<close> is \<open>new Date().toISOString()\<close>.
\<close>

definition saver_updateWorkflowStats ::
  "string \<Rightarrow> bool \<Rightarrow> string \<Rightarrow> WorkflowPattern list \<Rightarrow> WorkflowPattern list" where
  "saver_updateWorkflowStats workflowId ok nowIso stored =
     (case find (\<lambda>x. p_id x = workflowId) stored of
        None \<Rightarrow> stored
      | Some wfl \<Rightarrow>
          saver_saveWorkflow
            (wfl\<lparr>p_usageCount := p_usageCount wfl + 1,
                p_lastUsed := nowIso,
                p_successRate := (p_successRate wfl + (if ok then 1 else 0)) / 2\<rparr>)
            stored)"

record SaverResult =
  sv_success :: bool
  sv_steps :: nat
  sv_message :: string

text \<open>
  \<open>WorkflowSaver.executeWorkflow\<close> on the stored patterns and the state the runners act
  on; \<open>Inl\<close> is the \<open>Error\<close> thrown for an unknown id.
\<close>

definition saver_executeWorkflow ::
  "'w SaverActions \<Rightarrow> string \<Rightarrow> bool \<Rightarrow> string \<Rightarrow> WorkflowPattern list \<times> 'w \<Rightarrow>
   string + (SaverResult \<times> WorkflowPattern list \<times> 'w)" where
  "saver_executeWorkflow acts workflowId useAI nowIso st =
     (case find (\<lambda>x. p_id x = workflowId) (fst st) of
        None \<Rightarrow> Inl (''Workflow '' @ workflowId @ '' not found'')
      | Some workflow \<Rightarrow>
          (let (executed, errors, w') = saver_steps acts useAI (p_steps workflow) 0 [] (snd st);
               stored = saver_updateWorkflowStats workflowId
                          (executed = length (p_steps workflow)) nowIso (fst st)
           in Inr (\<lparr>sv_success = (errors = []),
                    sv_steps = executed,
                    sv_message =
                      (if errors \<noteq> []
                       then ''Completed '' @ string_of_nat executed @ '' steps with errors: '' @
                            join '', '' errors
                       else ''Successfully completed all '' @ string_of_nat executed @ '' steps'')\<rparr>,
                   stored, w')))"

text \<open>Any number of saver executions; a thrown \<open>Error\<close> leaves the state as it was.\<close>

fun saver_executeWorkflow_seq ::
  "'w SaverActions \<Rightarrow> (string \<times> bool \<times> string) list \<Rightarrow> WorkflowPattern list \<times> 'w \<Rightarrow>
   WorkflowPattern list \<times> 'w" where
  "saver_executeWorkflow_seq acts [] st = st"
| "saver_executeWorkflow_seq acts ((workflowId, useAI, nowIso) # rest) st =
     (case saver_executeWorkflow acts workflowId useAI nowIso st of
        Inl err \<Rightarrow> saver_executeWorkflow_seq acts rest st
      | Inr (res, st') \<Rightarrow> saver_executeWorkflow_seq acts rest st')"

definition pattern_rates_in_unit :: "WorkflowPattern list \<Rightarrow> bool" where
  "pattern_rates_in_unit ws = list_all (\<lambda>w. 0 \<le> p_successRate w \<and> p_successRate w \<le> 1) ws"

section \<open>WorkflowRecorder.stopRecording and the stop\_recording action\<close>

record WorkflowRecorder =
  isRecording :: bool
  currentWorkflow :: "WorkflowStep list"
  startTime :: int
  recordingId :: string

text \<open>The field initialisers of the class: what \<open>new WorkflowRecorder(context)\<close> is.\<close>

definition new_WorkflowRecorder :: WorkflowRecorder where
  "new_WorkflowRecorder =
     \<lparr>isRecording = False, currentWorkflow = [], startTime = 0, recordingId = ''''\<rparr>"

text \<open>The object \<open>window.workflowRecording\<close> that \<open>startRecording\<close> installs in the page.\<close>

record PageRecording =
  rec_id :: string
  actions :: "RecordedAction list"
  rec_isRecording :: bool

text \<open>
  What \<open>stopRecording\<close> can read and change: the page that \<open>getCurrentPage()\<close> delivers
  (\<open>Inl\<close> when it throws) with its \<open>window.workflowRecording\<close>, the number of
  \<open>page.evaluate\<close> calls made so far, and the stored \<open>recorded_workflows\<close>.
\<close>

record RecorderWorld =
  page_recording :: "string + PageRecording option"
  evaluations :: nat
  saved_workflows :: "SavedWorkflow list"

record StopResult =
  stop_success :: bool
  workflow :: "SavedWorkflow option"

definition detectPlatform :: "RecordedAction list \<Rightarrow> string" where
  "detectPlatform acts =
     (let urls = join '' '' (map url acts) in
      if str_includes urls ''linkedin.com'' then ''linkedin''
      else if str_includes urls ''indeed.com'' then ''indeed''
      else if str_includes urls ''glassdoor.com'' then ''glassdoor''
      else if str_includes urls ''workday'' then ''workday''
      else if str_includes urls ''greenhouse'' then ''greenhouse''
      else ''other'')"

text \<open>
  \<open>stopRecording(workflowName)\<close>. \<open>now\<close> is \<open>Date.now()\<close> and \<open>today\<close> is
  \<open>new Date().toLocaleDateString()\<close>. The result, the recorder and the world afterwards.
\<close>

definition stopRecording ::
  "string option \<Rightarrow> int \<Rightarrow> string \<Rightarrow> WorkflowRecorder \<Rightarrow> RecorderWorld \<Rightarrow>
   StopResult \<times> WorkflowRecorder \<times> RecorderWorld" where
  "stopRecording workflowName now today r w =
     (if \<not> isRecording r then (\<lparr>stop_success = False, workflow = None\<rparr>, r, w)
      else
        (case page_recording w of
           Inl err \<Rightarrow> (\<lparr>stop_success = False, workflow = None\<rparr>, r, w)
         | Inr recording \<Rightarrow>
             (let recordedActions = (case recording of None \<Rightarrow> [] | Some rc \<Rightarrow> actions rc);
                  w1 = w\<lparr>page_recording :=
                           Inr (map_option (\<lambda>rc. rc\<lparr>rec_isRecording := False\<rparr>) recording),
                         evaluations := evaluations w + 1\<rparr>;
                  r1 = r\<lparr>isRecording := False\<rparr>
              in if length recordedActions = 0
                 then (\<lparr>stop_success = False, workflow = None\<rparr>, r1, w1)
                 else
                   (let optimizedWorkflow = optimizeWorkflow (startTime r1) recordedActions;
                        savedWorkflow =
                          \<lparr>wf_id = recordingId r1,
                           wf_name = js_or_str workflowName (''Recorded Workflow '' @ today),
                           platform = detectPlatform recordedActions,
                           steps = optimizedWorkflow,
                           recordedAt = startTime r1,
                           duration = now - startTime r1,
                           actionCount = length recordedActions,
                           optimizedActionCount = length optimizedWorkflow,
                           successRate = 1,
                           usageCount = 0\<rparr>
                    in (\<lparr>stop_success = True, workflow = Some savedWorkflow\<rparr>, r1,
                        w1\<lparr>saved_workflows := saved_workflows w1 @ [savedWorkflow]\<rparr>)))))"

record ActionOutcome =
  ao_success :: bool
  ao_message :: string

text \<open>
  The handler of \<open>createStopRecordingAction\<close>: a new recorder, \<open>stopRecording\<close>, then
  \<open>getCurrentPage()\<close> for the screenshot. When that throws, the \<open>catch\<close> block asks for
  the page again and the handler rejects (\<open>Inl\<close>). The emoji of the messages, the
  screenshot and the metadata are left out.
\<close>

definition stopRecordingAction ::
  "string option \<Rightarrow> int \<Rightarrow> string \<Rightarrow> RecorderWorld \<Rightarrow> (string + ActionOutcome) \<times> RecorderWorld" where
  "stopRecordingAction workflow_name now today w =
     (let (res, r', w') = stopRecording workflow_name now today new_WorkflowRecorder w in
      case page_recording w' of
        Inl err \<Rightarrow> (Inl err, w')
      | Inr pg \<Rightarrow>
          (case (stop_success res, workflow res) of
             (True, Some wfl) \<Rightarrow>
               (Inr \<lparr>ao_success = True,
                     ao_message = ''Workflow recorded! '' @ [CHR 0x22] @ wf_name wfl @ [CHR 0x22] @
                       '' saved with '' @
                       string_of_nat (optimizedActionCount wfl) @
                       '' steps. Now I can apply to similar jobs instantly!''\<rparr>, w')
           | _ \<Rightarrow>
               (Inr \<lparr>ao_success = False,
                     ao_message = ''No recording found or recording was empty''\<rparr>, w')))"

section \<open>ResponseCache\<close>

subsection \<open>generateQuestionHash\<close>

text \<open>The character classes \<open>\w\<close> and \<open>\s\<close> of the two regular expressions, on ASCII.\<close>

definition is_word_char :: "char \<Rightarrow> bool" where
  "is_word_char c =
     (let n = (of_char c :: nat) in
      (48 \<le> n \<and> n \<le> 57) \<or> (65 \<le> n \<and> n \<le> 90) \<or> n = 95 \<or> (97 \<le> n \<and> n \<le> 122))"

definition is_space_char :: "char \<Rightarrow> bool" where
  "is_space_char c = (let n = (of_char c :: nat) in (9 \<le> n \<and> n \<le> 13) \<or> n = 32)"

text \<open>\<open>replace(/\s+/g, ' ')\<close>: every run of white space becomes one blank.\<close>

fun collapse_spaces :: "bool \<Rightarrow> string \<Rightarrow> string" where
  "collapse_spaces in_run [] = []"
| "collapse_spaces in_run (c # cs) =
     (if is_space_char c
      then (if in_run then collapse_spaces True cs else CHR '' '' # collapse_spaces True cs)
      else c # collapse_spaces False cs)"

definition trim :: "string \<Rightarrow> string" where
  "trim s = rev (dropWhile is_space_char (rev (dropWhile is_space_char s)))"

definition normalize_question :: "string \<Rightarrow> string" where
  "normalize_question questionText =
     trim (collapse_spaces False
       (filter (\<lambda>c. is_word_char c \<or> is_space_char c) (toLowerCase questionText)))"

text \<open>\<open>extractKeyConcepts\<close>: the pushes in source order, \<open>general\<close> when there is none.\<close>

definition extractKeyConcepts :: "string \<Rightarrow> string list" where
  "extractKeyConcepts t =
     (let concepts =
        (if str_includes t ''experience'' \<or> str_includes t ''years''
         then ''experience'' #
              (if str_includes t ''java'' \<or> str_includes t ''python'' \<or>
                  str_includes t ''javascript''
               then [''programming_experience''] else [])
         else []) @
        (if str_includes t ''authorized'' \<or> str_includes t ''legal'' \<or> str_includes t ''work''
         then [''work_authorization''] else []) @
        (if str_includes t ''sponsor'' \<or> str_includes t ''visa''
         then [''visa_sponsorship''] else []) @
        (if str_includes t ''degree'' \<or> str_includes t ''bachelor'' \<or>
            str_includes t ''education''
         then [''education''] else []) @
        (if str_includes t ''salary'' \<or> str_includes t ''compensation'' \<or> str_includes t ''pay''
         then [''compensation''] else []) @
        (if str_includes t ''start'' \<or> str_includes t ''available'' \<or> str_includes t ''notice''
         then [''availability''] else []) @
        (if str_includes t ''remote'' \<or> str_includes t ''onsite'' \<or> str_includes t ''relocate''
         then [''location_preference''] else []) @
        (if str_includes t ''why'' \<and> (str_includes t ''interested'' \<or> str_includes t ''apply'')
         then [''why_interested''] else []) @
        (if str_includes t ''why'' \<and> (str_includes t ''qualified'' \<or> str_includes t ''fit'')
         then [''why_qualified''] else [])
      in if concepts \<noteq> [] then concepts else [''general''])"

text \<open>\<open>Array.prototype.sort()\<close> on strings: ascending by code units.\<close>

fun str_le :: "string \<Rightarrow> string \<Rightarrow> bool" where
  "str_le [] ys = True"
| "str_le (x # xs) [] = False"
| "str_le (x # xs) (y # ys) =
     ((of_char x :: nat) < of_char y \<or> (x = y \<and> str_le xs ys))"

fun insert_str :: "string \<Rightarrow> string list \<Rightarrow> string list" where
  "insert_str s [] = [s]"
| "insert_str s (t # ts) = (if str_le s t then s # t # ts else t # insert_str s ts)"

definition sort_strings :: "string list \<Rightarrow> string list" where
  "sort_strings xs = foldr insert_str xs []"

text \<open>\<open>btoa\<close>: Base64 with padding, on the code units of the string.\<close>

definition b64_char :: "nat \<Rightarrow> char" where
  "b64_char n =
     ''ABCDEFGHIJKLMNOPQRSTUVWXYZabcdefghijklmnopqrstuvwxyz0123456789+/'' ! n"

fun b64_encode :: "nat list \<Rightarrow> string" where
  "b64_encode [] = []"
| "b64_encode [a] = [b64_char (a div 4), b64_char ((a mod 4) * 16), CHR ''='', CHR ''='']"
| "b64_encode [a, b] =
     [b64_char (a div 4), b64_char ((a mod 4) * 16 + b div 16), b64_char ((b mod 16) * 4),
      CHR ''='']"
| "b64_encode (a # b # c # rest) =
     [b64_char (a div 4), b64_char ((a mod 4) * 16 + b div 16),
      b64_char ((b mod 16) * 4 + c div 64), b64_char (c mod 64)] @ b64_encode rest"

definition btoa :: "string \<Rightarrow> string" where
  "btoa s = b64_encode (map of_char s)"

definition generateQuestionHash :: "string \<Rightarrow> string" where
  "generateQuestionHash questionText =
     (let normalized = normalize_question questionText;
          concepts = extractKeyConcepts normalized;
          conceptHash = join ''_'' (sort_strings concepts)
      in take 16 (btoa conceptHash))"

subsection \<open>The cache\<close>

text \<open>The \<open>context\<close> argument, reduced to the four members the class reads.\<close>

record QuestionContext =
  companyName :: "string option"
  jobTitle :: "string option"
  industry :: "string option"
  ctx_platform :: "string option"

record CachedResponse =
  hash :: string
  questionText :: string
  response :: string
  confidence :: real
  cr_timestamp :: int
  lastUsed :: int
  useCount :: nat
  cr_context :: "QuestionContext option"

text \<open>
  \<open>cache: Map<string, CachedResponse>\<close> as its entries in insertion order; a list
  that stands for a \<open>Map\<close> has distinct keys, and \<open>cache.size\<close> is its length.
\<close>

type_synonym Cache = "(string \<times> CachedResponse) list"

definition MAX_CACHE_SIZE :: nat where
  "MAX_CACHE_SIZE = 1000"

definition CACHE_EXPIRY :: int where
  "CACHE_EXPIRY = 30 * 24 * 60 * 60 * 1000"

definition sanitizeContext :: "QuestionContext \<Rightarrow> QuestionContext" where
  "sanitizeContext c =
     \<lparr>companyName = (if truthy (companyName c) then companyName c else None),
      jobTitle = (if truthy (jobTitle c) then jobTitle c else None),
      industry = (if truthy (industry c) then industry c else None),
      ctx_platform = (if truthy (ctx_platform c) then ctx_platform c else None)\<rparr>"

text \<open>
  \<open>s.replace(/pat/g, rep)\<close> for a literal pattern; the \<open>$\<close> escapes of a replacement
  string are not interpreted.
\<close>

function replace_all :: "string \<Rightarrow> string \<Rightarrow> string \<Rightarrow> string" where
  "replace_all pat rep [] = []"
| "replace_all pat rep (c # cs) =
     (if pat \<noteq> [] \<and> take (length pat) (c # cs) = pat
      then rep @ replace_all pat rep (drop (length pat) (c # cs))
      else c # replace_all pat rep cs)"
  by pat_completeness auto
termination
  by (relation "measure (\<lambda>(pat, rep, s). length s)") auto

definition personalizeResponse :: "string \<Rightarrow> QuestionContext option \<Rightarrow> string" where
  "personalizeResponse resp ctx =
     (case ctx of
        None \<Rightarrow> resp
      | Some c \<Rightarrow>
          replace_all ''[Industry]'' (js_or_str (industry c) ''[Industry]'')
            (replace_all ''[Position]'' (js_or_str (jobTitle c) ''[Position]'')
              (replace_all ''[Company Name]'' (js_or_str (companyName c) ''[Company Name]'')
                 resp)))"

text \<open>
  The eviction score of \<open>cleanupCache\<close> for an entry, as the comparator computes it:
  \<open>useCount + (now - lastUsed) / 1000000\<close>.
\<close>

definition score :: "int \<Rightarrow> CachedResponse \<Rightarrow> real" where
  "score now e = real (useCount e) + real_of_int (now - lastUsed e) / 1000000"

text \<open>
  \<open>cleanupCache\<close>: the entries that are not expired; when these are still more than
  \<open>MAX_CACHE_SIZE\<close>, a stable sort by descending score (the comparator returns
  \<open>bScore - aScore\<close>) and \<open>splice(MAX_CACHE_SIZE)\<close>; then the map is rebuilt by
  \<open>set\<close> in that order.
\<close>

definition cleanupCache :: "int \<Rightarrow> Cache \<Rightarrow> Cache" where
  "cleanupCache now cache =
     (let validEntries = filter (\<lambda>(h, e). now - cr_timestamp e < CACHE_EXPIRY) cache;
          kept = (if length validEntries > MAX_CACHE_SIZE
                  then take MAX_CACHE_SIZE (sort_key (\<lambda>(h, e). - score now e) validEntries)
                  else validEntries)
      in fold (\<lambda>(h, e) c. AList.update h e c) kept [])"

text \<open>
  \<open>cacheResponse\<close>; \<open>now\<close> is the reading of \<open>Date.now()\<close>, taken as one instant for
  the new entry and for the cleanup that follows in the same turn.
\<close>

definition cacheResponse ::
  "string \<Rightarrow> string \<Rightarrow> real \<Rightarrow> QuestionContext option \<Rightarrow> int \<Rightarrow> Cache \<Rightarrow> Cache" where
  "cacheResponse question resp conf ctx now cache =
     (let h = generateQuestionHash question;
          cachedResponse =
            \<lparr>hash = h, questionText = take 200 question, response = resp, confidence = conf,
             cr_timestamp = now, lastUsed = now, useCount = 1,
             cr_context = map_option sanitizeContext ctx\<rparr>;
          cache1 = AList.update h cachedResponse cache
      in if length cache1 > MAX_CACHE_SIZE then cleanupCache now cache1 else cache1)"

text \<open>
  \<open>getCachedResponse\<close>: the answer (\<open>None\<close> for \<open>null\<close>) and the cache afterwards.
\<close>

definition getCachedResponse ::
  "string \<Rightarrow> QuestionContext option \<Rightarrow> int \<Rightarrow> Cache \<Rightarrow> string option \<times> Cache" where
  "getCachedResponse question ctx now cache =
     (let h = generateQuestionHash question in
      case map_of cache h of
        None \<Rightarrow> (None, cache)
      | Some cached \<Rightarrow>
          if now - cr_timestamp cached > CACHE_EXPIRY then (None, AList.delete h cache)
          else (Some (personalizeResponse (response cached) ctx),
                AList.update h (cached\<lparr>lastUsed := now, useCount := useCount cached + 1\<rparr>) cache))"

text \<open>One insert after the other; each is a question, an answer, a confidence, a context and a clock reading.\<close>

fun cacheResponse_seq ::
  "(string \<times> string \<times> real \<times> QuestionContext option \<times> int) list \<Rightarrow> Cache \<Rightarrow> Cache" where
  "cacheResponse_seq [] cache = cache"
| "cacheResponse_seq ((question, resp, conf, ctx, now) # rest) cache =
     cacheResponse_seq rest (cacheResponse question resp conf ctx now cache)"

text \<open>
  The score of the specification: use count minus the age since the last use over the
  same constant.
\<close>

definition spec_score :: "int \<Rightarrow> CachedResponse \<Rightarrow> real" where
  "spec_score now e = real (useCount e) - real_of_int (now - lastUsed e) / 1000000"

text \<open>
  A full cache as \<open>importCache\<close> can load it: 1000 entries under distinct keys, each used
  once, created and last used 1000 seconds before \<open>now\<close>.
\<close>

definition stale_entry :: "int \<Rightarrow> nat \<Rightarrow> string \<times> CachedResponse" where
  "stale_entry now i =
     (replicate (Suc i) CHR ''k'',
      \<lparr>hash = replicate (Suc i) CHR ''k'', questionText = ''q'', response = ''a'', confidence = 1,
       cr_timestamp = now - 1000000, lastUsed = now - 1000000, useCount = 1,
       cr_context = None\<rparr>)"

definition full_cache :: "int \<Rightarrow> Cache" where
  "full_cache now = map (stale_entry now) [0..<1000]"

section \<open>Auxiliary notions for the proofs\<close>

text \<open>
  The invariant of a run of \<open>canProceed\<close> from a new limiter over the clock readings
  \<open>ts\<close>: at every later reading the pruned \<open>calls\<close> are the granted time stamps
  still in the window, and no window holds more than \<open>maxCalls\<close> of them.
\<close>

definition run_inv :: "int list \<Rightarrow> bool" where
  "run_inv ts =
     (let r = canProceed_run new_RateLimiter ts; g = permits ts (fst r) in
      (\<forall>now. (\<forall>t \<in> set ts. t \<le> now) \<longrightarrow>
         filter (\<lambda>time. now - time < timeWindow) (calls (snd r)) =
         filter (\<lambda>time. now - time < timeWindow) g) \<and>
      (\<forall>a. length (filter (in_window a) g) \<le> maxCalls))"

section \<open>Concrete inputs\<close>

text \<open>
  A page whose state is its selector map: \<open>getState\<close> returns it and every dispatched
  call succeeds and leaves it as it is.
\<close>

definition static_page :: "SelectorMap PageApi" where
  "static_page = \<lparr>getState = (\<lambda>p. Inr (Some p)), perform = (\<lambda>c p. Inr p)\<rparr>"

definition dom_el :: "string \<Rightarrow> string \<Rightarrow> nat \<Rightarrow> DOMElement" where
  "dom_el i n k =
     \<lparr>attributes = Some [(''id'', i), (''name'', n)], dom_textContent = Some '''',
      highlightIndex = Some k\<rparr>"

definition fingerprint :: "string \<Rightarrow> string \<Rightarrow> RecordedElement" where
  "fingerprint i n =
     \<lparr>tagName = ''input'', el_id = i, className = '''', textContent = '''', el_name = n,
      el_type = ''text'', placeholder = '''', xpath = ''''\<rparr>"

text \<open>A form with an email field, a Next button and a Submit button.\<close>

definition form_page :: SelectorMap where
  "form_page =
     [(0, dom_el ''email'' ''user_email'' 0), (1, dom_el ''next'' ''next_btn'' 1),
      (2, dom_el ''submit'' ''submit_btn'' 2)]"

text \<open>
  A recorded workflow of four steps; the element of the step with \<open>stepIndex\<close> 2 (a
  field with id \<open>coupon\<close>) is not on \<open>form_page\<close>, the other three are.
\<close>

definition four_steps :: "WorkflowStep list" where
  "four_steps =
     [\<lparr>stepIndex = 0, action = Fill_field, step_element = fingerprint ''email'' '''',
       step_data = Some [(''value'', ''a@b.c'')], timing = 10, description = ''Fill''\<rparr>,
      \<lparr>stepIndex = 1, action = Click_element, step_element = fingerprint ''next'' '''',
       step_data = None, timing = 500, description = ''Click''\<rparr>,
      \<lparr>stepIndex = 2, action = Fill_field, step_element = fingerprint ''coupon'' '''',
       step_data = Some [(''value'', ''SAVE'')], timing = 900, description = ''Fill''\<rparr>,
      \<lparr>stepIndex = 3, action = Click_element, step_element = fingerprint ''submit'' '''',
       step_data = None, timing = 1500, description = ''Click''\<rparr>]"

definition four_step_workflow :: SavedWorkflow where
  "four_step_workflow =
     \<lparr>wf_id = ''workflow_1'', wf_name = ''Apply'', platform = ''other'', steps = four_steps,
      recordedAt = 0, duration = 2000, actionCount = 4, optimizedActionCount = 4,
      successRate = 1, usageCount = 0\<rparr>"

definition form_world :: "SelectorMap World" where
  "form_world =
     \<lparr>recorded_workflows = [four_step_workflow], currentPage = Inr form_page,
      dispatched = [], autoFillData = None\<rparr>"

definition default_options :: ExecOptions where
  "default_options = \<lparr>useResumeData = False, skipConfirmation = False, speed = None\<rparr>"

text \<open>
  A snapshot in which the first element carries the recorded name and the second the
  recorded id.
\<close>

definition two_fields :: SelectorMap where
  "two_fields = [(0, dom_el ''user'' ''login'' 0), (1, dom_el ''email'' ''mail'' 1)]"

text \<open>
  A saver pattern with one deterministic step, used twice so far with full success, and
  runners that throw.
\<close>

definition failing_actions :: "unit SaverActions" where
  "failing_actions =
     \<lparr>executeSimpleAction = (\<lambda>a ps w. Inl ''no page''),
      executeAIAction = (\<lambda>a ps w. Inl ''no page'')\<rparr>"

definition click_pattern :: WorkflowPattern where
  "click_pattern =
     \<lparr>p_id = ''linkedin_easy_apply_1'', p_name = ''Easy Apply'', p_platform = ''linkedin'',
      applicationType = ''easy_apply'',
      p_steps = [\<lparr>p_action = ''click_element'', parameters = [(''index'', ''3'')],
                  p_description = ''Clicked element with index 3'', isAIRequired = False,
                  fallbackAction = None\<rparr>],
      p_successRate = 1, averageTime = 2000, createdAt = ''2025-01-01'',
      p_lastUsed = ''2025-01-02'', p_usageCount = 2\<rparr>"

text \<open>
  A page on which a recording is running, with one recorded click, and nothing stored
  yet.
\<close>

definition recording_world :: RecorderWorld where
  "recording_world =
     \<lparr>page_recording =
        Inr (Some \<lparr>rec_id = ''workflow_1700000000000'',
                   actions = [\<lparr>timestamp = 1700000000500, atype = Click,
                               element = fingerprint ''apply'' '''', data = None,
                               url = ''https://www.linkedin.com/jobs''\<rparr>],
                   rec_isRecording = True\<rparr>),
      evaluations = 0,
      saved_workflows = []\<rparr>"

section \<open>The outcome of each step of a run\<close>

text \<open>
  What \<open>executeStep\<close> does step by step when the steps run in order from a page run:
  for each step the exception its \<open>try\<close> block caught, \<open>None\<close> when the step
  returned.
\<close>

fun step_errors ::
  "'p PageApi \<Rightarrow> ResumeData option \<Rightarrow> WorkflowStep list \<Rightarrow> 'p PageRun \<Rightarrow> string option list" where
  "step_errors api resumeData [] run = []"
| "step_errors api resumeData (step # rest) run =
     fst (executeStep api step resumeData run) #
     step_errors api resumeData rest (snd (executeStep api step resumeData run))"

text \<open>The page run that step \<open>i\<close> starts from: the one the first \<open>i\<close> steps leave.\<close>

definition run_before ::
  "'p PageApi \<Rightarrow> ResumeData option \<Rightarrow> WorkflowStep list \<Rightarrow> 'p PageRun \<Rightarrow> nat \<Rightarrow> 'p PageRun" where
  "run_before api resumeData ss run i = snd (execute_steps api resumeData (take i ss) 0 run)"

text \<open>
  Step \<open>i\<close> targets an element (fill, click or select) and \<open>findElement\<close> resolves
  its fingerprint to none on the page it meets.
\<close>

definition unresolved_at ::
  "'p PageApi \<Rightarrow> ResumeData option \<Rightarrow> WorkflowStep list \<Rightarrow> 'p PageRun \<Rightarrow> nat \<Rightarrow> bool" where
  "unresolved_at api resumeData ss run i =
     (action (ss ! i) \<in> {Fill_field, Click_element, Select_option} \<and>
      findElement api (fst (run_before api resumeData ss run i)) (step_element (ss ! i)) =
        Inr None)"

text \<open>
  A page like \<open>static_page\<close> on which a click on the element with highlight index 1
  throws.
\<close>

definition brittle_page :: "SelectorMap PageApi" where
  "brittle_page =
     \<lparr>getState = (\<lambda>p. Inr (Some p)),
      perform = (\<lambda>c p. case c of
                   ClickElementNode el \<Rightarrow>
                     if highlightIndex el = Some 1 then Inl ''element detached'' else Inr p
                 | _ \<Rightarrow> Inr p)\<rparr>"

text \<open>
  Twenty clock readings in call order, the eleventh far ahead of the rest: ten calls at
  0, one at 1000000, then one each at 1 to 9.
\<close>

definition clock_steps_back :: "int list" where
  "clock_steps_back =
     [0, 0, 0, 0, 0, 0, 0, 0, 0, 0, 1000000, 1, 2, 3, 4, 5, 6, 7, 8, 9]"

section \<open>Theorems\<close>

subsection \<open>RateLimiter\<close>

lemma canProceed_run_snoc:
  "canProceed_run rl (ts @ [t]) =
     (fst (canProceed_run rl ts) @ [fst (canProceed t (snd (canProceed_run rl ts)))],
      snd (canProceed t (snd (canProceed_run rl ts))))"
  by (induction ts arbitrary: rl) (auto simp: split_beta Let_def)

lemma length_canProceed_run: "length (fst (canProceed_run rl ts)) = length ts"
  by (induction ts arbitrary: rl) (auto simp: split_beta Let_def)

lemma permits_snoc:
  "length oks = length ts \<Longrightarrow>
   permits (ts @ [t]) (oks @ [ok]) = permits ts oks @ (if ok then [t] else [])"
  by (simp add: permits_def)

lemma permits_subset: "set (permits ts oks) \<subseteq> set ts"
  by (auto simp: permits_def dest: set_zip_leftD)

lemma filter_length_mono:
  "(\<And>x. x \<in> set xs \<Longrightarrow> P x \<Longrightarrow> Q x) \<Longrightarrow> length (filter P xs) \<le> length (filter Q xs)"
  by (induction xs) auto

lemma canProceed_eq:
  "canProceed now rl =
     (length (filter (\<lambda>time. now - time < timeWindow) (calls rl)) < maxCalls,
      rl\<lparr>calls := filter (\<lambda>time. now - time < timeWindow) (calls rl) @
        (if length (filter (\<lambda>time. now - time < timeWindow) (calls rl)) < maxCalls
         then [now] else [])\<rparr>)"
  by (auto simp: canProceed_def Let_def)

lemma run_inv_sorted: "sorted ts \<Longrightarrow> run_inv ts"
proof (induction ts rule: rev_induct)
  case Nil
  show ?case by (simp add: run_inv_def permits_def new_RateLimiter_def)
next
  case (snoc t ts)
  from snoc.prems have srt: "sorted ts" and le: "\<forall>x \<in> set ts. x \<le> t"
    by (auto simp: sorted_append)
  define r where "r = canProceed_run new_RateLimiter ts"
  define g where "g = permits ts (fst r)"
  define pruned where "pruned = filter (\<lambda>time. t - time < timeWindow) (calls (snd r))"
  define ok where "ok = (length pruned < maxCalls)"
  have inv: "run_inv ts" using snoc.IH srt by simp
  have pr: "pruned = filter (\<lambda>time. t - time < timeWindow) g"
    using inv le unfolding run_inv_def pruned_def r_def g_def Let_def by blast
  have win: "\<And>a. length (filter (in_window a) g) \<le> maxCalls"
    using inv unfolding run_inv_def r_def g_def Let_def by blast
  have gle: "\<forall>x \<in> set g. x \<le> t"
    using permits_subset le unfolding g_def by blast
  have cp: "canProceed t (snd r) = (ok, (snd r)\<lparr>calls := pruned @ (if ok then [t] else [])\<rparr>)"
    unfolding canProceed_eq pruned_def ok_def ..
  have r': "canProceed_run new_RateLimiter (ts @ [t]) =
      (fst r @ [ok], (snd r)\<lparr>calls := pruned @ (if ok then [t] else [])\<rparr>)"
    by (simp add: canProceed_run_snoc r_def [symmetric] cp)
  have g': "permits (ts @ [t]) (fst r @ [ok]) = g @ (if ok then [t] else [])"
    unfolding g_def by (rule permits_snoc) (simp add: r_def length_canProceed_run)
  have c2: "\<forall>now. (\<forall>u \<in> set (ts @ [t]). u \<le> now) \<longrightarrow>
         filter (\<lambda>time. now - time < timeWindow) (pruned @ (if ok then [t] else [])) =
         filter (\<lambda>time. now - time < timeWindow) (g @ (if ok then [t] else []))"
  proof (intro allI impI)
    fix now assume "\<forall>u \<in> set (ts @ [t]). u \<le> now"
    then have tn: "t \<le> now" by simp
    have "filter (\<lambda>time. now - time < timeWindow) pruned = filter (\<lambda>time. now - time < timeWindow) g"
      unfolding pr using tn by (auto intro!: filter_cong)
    then show "filter (\<lambda>time. now - time < timeWindow) (pruned @ (if ok then [t] else [])) =
         filter (\<lambda>time. now - time < timeWindow) (g @ (if ok then [t] else []))"
      by simp
  qed
  have c3: "\<forall>a. length (filter (in_window a) (g @ (if ok then [t] else []))) \<le> maxCalls"
  proof
    fix a
    show "length (filter (in_window a) (g @ (if ok then [t] else []))) \<le> maxCalls"
    proof (cases "ok \<and> in_window a t")
      case False
      then show ?thesis using win [of a] by auto
    next
      case True
      have "length (filter (in_window a) g) \<le> length pruned"
        unfolding pr using True gle
        by (intro filter_length_mono) (auto simp: in_window_def)
      then show ?thesis using True by (simp add: ok_def)
    qed
  qed
  show ?case
    unfolding run_inv_def Let_def r' g' fst_conv snd_conv
    using c2 c3 by simp
qed

text \<open>
  Claim C8, as amended. For a new limiter and calls at clock readings that never go
  back: the call at \<open>now\<close> leaves the pruned list, extended by \<open>now\<close> exactly
  when it answers true; no
  half-open window of 60 seconds holds more than 10 granted time stamps; and the call
  answers true exactly when fewer than 10 of the time stamps granted before are less
  than 60 seconds old.
\<close>

theorem canProceed_rolling_window:
  assumes "sorted (pre @ [now])"
  shows "(\<forall>rl. calls (snd (canProceed now rl)) =
            filter (\<lambda>time. now - time < timeWindow) (calls rl) @
            (if fst (canProceed now rl) then [now] else [])) \<and>
         (\<forall>a. length (filter (in_window a)
            (permits (pre @ [now]) (fst (canProceed_run new_RateLimiter (pre @ [now]))))) \<le> 10) \<and>
         (fst (canProceed now (snd (canProceed_run new_RateLimiter pre))) \<longleftrightarrow>
            length (filter (\<lambda>g. now - g < 60000)
              (permits pre (fst (canProceed_run new_RateLimiter pre)))) < 10)"
proof (intro conjI allI)
  fix rl
  show "calls (snd (canProceed now rl)) =
        filter (\<lambda>time. now - time < timeWindow) (calls rl) @
        (if fst (canProceed now rl) then [now] else [])"
    by (simp add: canProceed_eq)
next
  fix a
  have "run_inv (pre @ [now])" using assms by (rule run_inv_sorted)
  then show "length (filter (in_window a)
      (permits (pre @ [now]) (fst (canProceed_run new_RateLimiter (pre @ [now]))))) \<le> 10"
    unfolding run_inv_def Let_def maxCalls_def by blast
next
  from assms have srt: "sorted pre" and le: "\<forall>x \<in> set pre. x \<le> now"
    by (auto simp: sorted_append)
  have "run_inv pre" using srt by (rule run_inv_sorted)
  then have "filter (\<lambda>time. now - time < timeWindow) (calls (snd (canProceed_run new_RateLimiter pre))) =
      filter (\<lambda>time. now - time < timeWindow) (permits pre (fst (canProceed_run new_RateLimiter pre)))"
    using le unfolding run_inv_def Let_def by blast
  then show "fst (canProceed now (snd (canProceed_run new_RateLimiter pre))) \<longleftrightarrow>
      length (filter (\<lambda>g. now - g < 60000)
        (permits pre (fst (canProceed_run new_RateLimiter pre)))) < 10"
    by (simp add: canProceed_eq maxCalls_def timeWindow_def)
qed

theorem canProceed_rolling_window_witness:
  "sorted ([0, 1, 2, 3, 4, 5, 6, 7, 8, 9] @ [59999 :: int]) \<and>
   fst (canProceed_run new_RateLimiter ([0, 1, 2, 3, 4, 5, 6, 7, 8, 9] @ [59999])) =
     [True, True, True, True, True, True, True, True, True, True, False] \<and>
   length (filter (in_window 0)
     (permits ([0, 1, 2, 3, 4, 5, 6, 7, 8, 9] @ [59999])
        (fst (canProceed_run new_RateLimiter ([0, 1, 2, 3, 4, 5, 6, 7, 8, 9] @ [59999]))))) \<le> 10 \<and>
   \<not> fst (canProceed 59999 (snd (canProceed_run new_RateLimiter [0, 1, 2, 3, 4, 5, 6, 7, 8, 9]))) \<and>
   fst (canProceed 60000 (snd (canProceed_run new_RateLimiter [0, 1, 2, 3, 4, 5, 6, 7, 8, 9])))"
  using canProceed_rolling_window [of "[0, 1, 2, 3, 4, 5, 6, 7, 8, 9]" 59999]
  by (simp add: canProceed_def new_RateLimiter_def maxCalls_def timeWindow_def permits_def
      in_window_def)

text \<open>
  Claim C8 as stated, for calls at arbitrary clock readings, fails when the clock steps
  back: after ten calls at 0 and one at 1000000, which prunes them, the calls at 1 to 9
  are granted too. All twenty calls are granted, nineteen of the permits lie in the
  window that starts at 0, and each of the last nine calls answers true with ten
  permits less than 60 seconds old.
\<close>

theorem clock_stepping_back_grants_twenty:
  "fst (canProceed_run new_RateLimiter clock_steps_back) = replicate 20 True \<and>
   length (filter (in_window 0)
     (permits clock_steps_back (fst (canProceed_run new_RateLimiter clock_steps_back)))) = 19 \<and>
   \<not> sorted clock_steps_back"
  by (simp add: clock_steps_back_def canProceed_def new_RateLimiter_def maxCalls_def
      timeWindow_def permits_def in_window_def eval_nat_numeral)

subsection \<open>The step optimizer\<close>

lemma optimize_loop_kept:
  "optimize_loop st prev k as = map (\<lambda>(j, a). to_step st j a) (enumerate k (kept_loop prev as))"
  by (induction as arbitrary: prev k) simp_all

lemma dropped_at_Suc:
  "0 < i \<Longrightarrow> dropped_at (p # as) (Suc i) = dropped_at as i"
  by (cases i) (simp_all add: dropped_at_def)

lemma dropped_at_one:
  "dropped_at (p # a # as) (Suc 0) = debounced (Some p) a"
  by (simp add: dropped_at_def debounced_def)

lemma kept_loop_Some:
  "kept_loop (Some p) as =
     map (\<lambda>i. (p # as) ! i) (filter (\<lambda>i. \<not> dropped_at (p # as) i) [Suc 0..<Suc (length as)])"
proof (induction as arbitrary: p)
  case Nil
  show ?case by simp
next
  case (Cons a as)
  have shift: "[Suc (Suc 0)..<Suc (Suc (length as))] = map Suc [Suc 0..<Suc (length as)]"
    by (simp only: map_Suc_upt)
  have flt: "filter ((\<lambda>i. \<not> dropped_at (p # a # as) i) \<circ> Suc) [Suc 0..<Suc (length as)] =
      filter (\<lambda>i. \<not> dropped_at (a # as) i) [Suc 0..<Suc (length as)]"
    by (rule filter_cong) (simp_all add: dropped_at_Suc del: upt_Suc)
  have nth: "(\<lambda>i. (p # a # as) ! i) \<circ> Suc = (\<lambda>i. (a # as) ! i)"
    by (simp add: fun_eq_iff)
  have tail: "map (\<lambda>i. (p # a # as) ! i)
        (filter (\<lambda>i. \<not> dropped_at (p # a # as) i) [Suc (Suc 0)..<Suc (Suc (length as))]) =
      map (\<lambda>i. (a # as) ! i) (filter (\<lambda>i. \<not> dropped_at (a # as) i) [Suc 0..<Suc (length as)])"
    unfolding shift filter_map map_map flt nth ..
  have split: "[Suc 0..<Suc (Suc (length as))] = Suc 0 # [Suc (Suc 0)..<Suc (Suc (length as))]"
    by (rule upt_conv_Cons) simp
  have len: "Suc (length (a # as)) = Suc (Suc (length as))"
    by simp
  have rhs: "map (\<lambda>i. (p # a # as) ! i)
        (filter (\<lambda>i. \<not> dropped_at (p # a # as) i) [Suc 0..<Suc (length (a # as))]) =
      (if dropped_at (p # a # as) (Suc 0) then [] else [a]) @
      map (\<lambda>i. (p # a # as) ! i)
        (filter (\<lambda>i. \<not> dropped_at (p # a # as) i) [Suc (Suc 0)..<Suc (Suc (length as))])"
    unfolding len split by simp
  have lhs: "kept_loop (Some p) (a # as) =
      (if debounced (Some p) a then [] else [a]) @ kept_loop (Some a) as"
    by simp
  show ?case
    unfolding rhs lhs tail dropped_at_one Cons.IH [of a] ..
qed

lemma kept_loop_None: "kept_loop None as = kept_actions as"
proof (cases as)
  case Nil
  then show ?thesis by (simp add: kept_actions_def)
next
  case (Cons a rest)
  have split: "[0..<length (a # rest)] = 0 # [Suc 0..<Suc (length rest)]"
    using upt_conv_Cons [of 0 "Suc (length rest)"] by simp
  show ?thesis
    unfolding Cons kept_actions_def split
    by (simp add: kept_loop_Some debounced_def dropped_at_def del: upt_Suc)
qed

text \<open>
  Claim C6. The steps that \<open>optimizeWorkflow\<close> emits are the steps of exactly those raw
  actions that are not dropped, in order and numbered from 0, where action \<open>i\<close> is
  dropped when it has the type of raw action \<open>i - 1\<close> and follows it by less than
  100 ms; two inputs on one field at 1000 and 1050 give one \<open>fill_field\<close> step.
\<close>

theorem optimizeWorkflow_debounce:
  "optimizeWorkflow start raw =
     map (\<lambda>(k, a). to_step start k a) (enumerate 0 (kept_actions raw)) \<and>
   map action (optimizeWorkflow start
     [\<lparr>timestamp = 1000, atype = Input, element = field, data = d1, url = u\<rparr>,
      \<lparr>timestamp = 1050, atype = Input, element = field, data = d2, url = u\<rparr>]) = [Fill_field]"
proof
  show "optimizeWorkflow start raw =
      map (\<lambda>(k, a). to_step start k a) (enumerate 0 (kept_actions raw))"
    by (simp only: optimizeWorkflow_def optimize_loop_kept kept_loop_None)
next
  show "map action (optimizeWorkflow start
     [\<lparr>timestamp = 1000, atype = Input, element = field, data = d1, url = u\<rparr>,
      \<lparr>timestamp = 1050, atype = Input, element = field, data = d2, url = u\<rparr>]) = [Fill_field]"
    by (simp add: optimizeWorkflow_def debounced_def to_step_def)
qed

subsection \<open>Concrete runs of the executor\<close>

lemmas ex_defs = four_steps_def fingerprint_def form_page_def dom_el_def static_page_def
  executeStep_def fillField_def clickElement_def findElement_def dispatch_def get_member_def
  js_or_str_def

lemma four_steps_run:
  "execute_steps static_page None four_steps 0 (form_page, []) =
     (4, (form_page,
          [InputTextElementNode (dom_el ''email'' ''user_email'' 0) ''a@b.c'',
           ClickElementNode (dom_el ''next'' ''next_btn'' 1),
           ClickElementNode (dom_el ''submit'' ''submit_btn'' 2)]))"
  by (simp add: ex_defs)

lemma form_world_execution:
  "executeWorkflow static_page ''workflow_1'' default_options form_world =
     (\<lparr>success = True, message = ''Executed 4/4 steps'', executedSteps = 4\<rparr>,
      form_world\<lparr>recorded_workflows := [four_step_workflow\<lparr>usageCount := 1, successRate := 1\<rparr>],
                 currentPage := Inr form_page,
                 dispatched :=
                   [InputTextElementNode (dom_el ''email'' ''user_email'' 0) ''a@b.c'',
                    ClickElementNode (dom_el ''next'' ''next_btn'' 1),
                    ClickElementNode (dom_el ''submit'' ''submit_btn'' 2)]\<rparr>)"
proof -
  have fnd: "find (\<lambda>x. wf_id x = ''workflow_1'') (recorded_workflows form_world) =
      Some four_step_workflow"
    by (simp add: form_world_def four_step_workflow_def)
  have stp: "steps four_step_workflow = four_steps" "length four_steps = 4"
    by (simp_all add: four_step_workflow_def four_steps_def)
  have wld: "currentPage form_world = Inr form_page" "dispatched form_world = []"
    "useResumeData default_options = False"
    "recorded_workflows form_world = [four_step_workflow]"
    "wf_id four_step_workflow = ''workflow_1''"
    by (simp_all add: form_world_def default_options_def four_step_workflow_def)
  have bump: "bump_stats True four_step_workflow =
      four_step_workflow\<lparr>usageCount := 1, successRate := 1\<rparr>"
    by (simp add: bump_stats_def four_step_workflow_def)
  show ?thesis
    by (simp add: executeWorkflow_def fnd stp wld four_steps_run bump)
qed

subsection \<open>Unknown workflow ids\<close>

text \<open>
  Claim C9. When no stored workflow has the requested id, \<open>executeWorkflow\<close> returns the
  failure result with \<open>executedSteps = 0\<close> and the world is as before: nothing is
  dispatched to the page, and the stored workflows with their usage statistics are
  untouched.
\<close>

theorem executeWorkflow_unknown_id:
  assumes "workflowId \<notin> wf_id ` set (recorded_workflows w)"
  shows "executeWorkflow api workflowId opts w =
           (\<lparr>success = False, message = ''Workflow not found'', executedSteps = 0\<rparr>, w)"
proof -
  have "find (\<lambda>x. wf_id x = workflowId) (recorded_workflows w) = None"
    using assms by (auto simp: find_None_iff)
  then show ?thesis by (simp add: executeWorkflow_def)
qed

theorem executeWorkflow_unknown_id_witness:
  "''workflow_2'' \<notin> wf_id ` set (recorded_workflows form_world) \<and>
   executeWorkflow static_page ''workflow_2'' default_options form_world =
     (\<lparr>success = False, message = ''Workflow not found'', executedSteps = 0\<rparr>, form_world) \<and>
   dispatched (snd (executeWorkflow static_page ''workflow_2'' default_options form_world)) = [] \<and>
   recorded_workflows (snd (executeWorkflow static_page ''workflow_2'' default_options form_world)) =
     [four_step_workflow]"
proof -
  have h: "''workflow_2'' \<notin> wf_id ` set (recorded_workflows form_world)"
    by (simp add: form_world_def four_step_workflow_def)
  show ?thesis
    using h executeWorkflow_unknown_id [OF h, of static_page default_options]
    by (simp add: form_world_def)
qed

subsection \<open>Element resolution\<close>

text \<open>
  Claim C7, at a snapshot where the claim and the code part: the recorded element has id
  \<open>email\<close> and name \<open>login\<close>; the first live element matches by name only, the second
  matches by id. \<open>findElement\<close> returns the first one.
\<close>

theorem findElement_first_match_wins:
  "findElement static_page two_fields (fingerprint ''email'' ''login'') =
     Inr (Some (dom_el ''user'' ''login'' 0)) \<and>
   id_match (fingerprint ''email'' ''login'') (dom_el ''email'' ''mail'' 1) \<and>
   \<not> id_match (fingerprint ''email'' ''login'') (dom_el ''user'' ''login'' 0) \<and>
   name_match (fingerprint ''email'' ''login'') (dom_el ''user'' ''login'' 0)"
  by (simp add: findElement_def static_page_def two_fields_def fingerprint_def dom_el_def
      id_match_def name_match_def get_member_def)

subsection \<open>Steps whose element is not found\<close>

lemma executeStep_unresolved:
  assumes "action step \<in> {Fill_field, Click_element, Select_option}"
    and "findElement api (fst run) (step_element step) = Inr None"
  shows "executeStep api step rd run = (None, run)"
  using assms
  by (auto simp: executeStep_def fillField_def clickElement_def selectOption_def)

lemma count_execute_steps:
  "fst (execute_steps api rd ss n run) =
     n + length (filter (\<lambda>e. e = None) (step_errors api rd ss run))"
proof (induction ss arbitrary: n run)
  case Nil
  show ?case by simp
next
  case (Cons s ss)
  obtain e run' where st: "executeStep api s rd run = (e, run')"
    by (cases "executeStep api s rd run")
  show ?case
  proof (cases e)
    case None
    then show ?thesis using Cons.IH [of "Suc n" run'] by (simp add: st)
  next
    case (Some err)
    then show ?thesis using Cons.IH [of n run'] by (simp add: st)
  qed
qed

lemma length_step_errors: "length (step_errors api rd ss run) = length ss"
  by (induction ss arbitrary: run) simp_all

lemma snd_execute_steps:
  "snd (execute_steps api rd ss n run) = snd (execute_steps api rd ss 0 run)"
proof (induction ss arbitrary: n run)
  case Nil
  show ?case by simp
next
  case (Cons s ss)
  obtain e run' where st: "executeStep api s rd run = (e, run')"
    by (cases "executeStep api s rd run")
  show ?case
    using Cons.IH [of "Suc n" run'] Cons.IH [of n run'] Cons.IH [of "Suc 0" run']
    by (cases e) (simp_all add: st)
qed

lemma snd_execute_steps_Cons:
  "snd (execute_steps api rd (s # ss) n run) =
     snd (execute_steps api rd ss 0 (snd (executeStep api s rd run)))"
proof -
  obtain e run' where st: "executeStep api s rd run = (e, run')"
    by (cases "executeStep api s rd run")
  show ?thesis
    using snd_execute_steps [of api rd ss "Suc n" run'] snd_execute_steps [of api rd ss n run']
    by (cases e) (simp_all add: st)
qed

lemma run_before_0: "run_before api rd ss run 0 = run"
  by (simp add: run_before_def)

lemma run_before_Cons_Suc:
  "run_before api rd (s # ss) run (Suc i) =
     run_before api rd ss (snd (executeStep api s rd run)) i"
  unfolding run_before_def take_Suc_Cons by (rule snd_execute_steps_Cons)

lemma step_errors_nth:
  "i < length ss \<Longrightarrow>
   step_errors api rd ss run ! i = fst (executeStep api (ss ! i) rd (run_before api rd ss run i))"
proof (induction ss arbitrary: i run)
  case Nil
  then show ?case by simp
next
  case (Cons s ss)
  show ?case
  proof (cases i)
    case 0
    then show ?thesis by (simp add: run_before_0)
  next
    case (Suc j)
    then have "j < length ss" using Cons.prems by simp
    then show ?thesis
      using Cons.IH [of j "snd (executeStep api s rd run)"]
      by (simp add: Suc run_before_Cons_Suc)
  qed
qed

lemma run_before_Suc:
  "i < length ss \<Longrightarrow>
   run_before api rd ss run (Suc i) =
     snd (executeStep api (ss ! i) rd (run_before api rd ss run i))"
proof (induction ss arbitrary: i run)
  case Nil
  then show ?case by simp
next
  case (Cons s ss)
  show ?case
  proof (cases i)
    case 0
    then show ?thesis by (simp add: run_before_Cons_Suc run_before_0)
  next
    case (Suc j)
    then have "j < length ss" using Cons.prems by simp
    then show ?thesis
      using Cons.IH [of j "snd (executeStep api s rd run)"]
      by (simp add: Suc run_before_Cons_Suc)
  qed
qed

lemma all_returned:
  assumes "\<forall>j < length es. es ! j = None"
  shows "length (filter (\<lambda>e. e = None) es) = length es"
proof -
  have "\<forall>e \<in> set es. e = None"
    using assms by (auto simp: in_set_conv_nth)
  then show ?thesis by simp
qed


lemma unresolved_at_returns:
  assumes "i < length ss" and "unresolved_at api rd ss run i"
  shows "step_errors api rd ss run ! i = None \<and>
         run_before api rd ss run (Suc i) = run_before api rd ss run i"
proof -
  have "executeStep api (ss ! i) rd (run_before api rd ss run i) =
      (None, run_before api rd ss run i)"
    using assms(2) unfolding unresolved_at_def by (intro executeStep_unresolved) simp_all
  then show ?thesis
    by (simp add: step_errors_nth [OF assms(1)] run_before_Suc [OF assms(1)])
qed

lemma executedSteps_count:
  assumes "find (\<lambda>x. wf_id x = wid) (recorded_workflows w) = Some wfl"
    and "currentPage w = Inr p"
    and "rd = (if useResumeData opts then autoFillData w else None)"
  shows "executedSteps (fst (executeWorkflow api wid opts w)) =
     length (filter (\<lambda>e. e = None) (step_errors api rd (steps wfl) (p, dispatched w)))"
proof -
  have "executedSteps (fst (executeWorkflow api wid opts w)) =
      fst (execute_steps api rd (steps wfl) 0 (p, dispatched w))"
    unfolding executeWorkflow_def assms(1) assms(2) assms(3) [symmetric] Let_def
    by (simp add: split_beta)
  then show ?thesis by (simp add: count_execute_steps)
qed

text \<open>
  Claim C1, as amended. When the workflow is found and the page obtained,
  \<open>executedSteps\<close> is the number of steps of the workflow that returned, that is, all
  but those that threw. A fill, click or select step whose element resolves to none
  returns: it throws nothing, dispatches nothing and leaves the page run as it was, so
  it is among the steps counted and the loop goes on after it. Hence a run in which one
  step is unresolved and no other step throws reports every step as executed, and for
  a workflow of four steps with step 2 unresolved and the other three returning the
  result is \<open>executedSteps = 4\<close>.
\<close>

theorem unresolved_step_is_counted:
  assumes "find (\<lambda>x. wf_id x = wid) (recorded_workflows w) = Some wfl"
    and "currentPage w = Inr p"
    and "rd = (if useResumeData opts then autoFillData w else None)"
  shows "executedSteps (fst (executeWorkflow api wid opts w)) =
           length (filter (\<lambda>e. e = None)
             (step_errors api rd (steps wfl) (p, dispatched w))) \<and>
         length (step_errors api rd (steps wfl) (p, dispatched w)) = length (steps wfl) \<and>
         (\<forall>i < length (steps wfl).
            unresolved_at api rd (steps wfl) (p, dispatched w) i \<longrightarrow>
              step_errors api rd (steps wfl) (p, dispatched w) ! i = None \<and>
              run_before api rd (steps wfl) (p, dispatched w) (Suc i) =
                run_before api rd (steps wfl) (p, dispatched w) i) \<and>
         (\<forall>i < length (steps wfl).
            unresolved_at api rd (steps wfl) (p, dispatched w) i \<and>
            (\<forall>j < length (steps wfl).
               j \<noteq> i \<longrightarrow> step_errors api rd (steps wfl) (p, dispatched w) ! j = None) \<longrightarrow>
              executedSteps (fst (executeWorkflow api wid opts w)) = length (steps wfl)) \<and>
         (length (steps wfl) = 4 \<and>
          unresolved_at api rd (steps wfl) (p, dispatched w) 2 \<and>
          step_errors api rd (steps wfl) (p, dispatched w) ! 0 = None \<and>
          step_errors api rd (steps wfl) (p, dispatched w) ! 1 = None \<and>
          step_errors api rd (steps wfl) (p, dispatched w) ! 3 = None \<longrightarrow>
            executedSteps (fst (executeWorkflow api wid opts w)) = 4)"
proof -
  define es where "es = step_errors api rd (steps wfl) (p, dispatched w)"
  have cnt: "executedSteps (fst (executeWorkflow api wid opts w)) =
      length (filter (\<lambda>e. e = None) es)"
    unfolding es_def using assms by (rule executedSteps_count)
  have len: "length es = length (steps wfl)"
    unfolding es_def by (rule length_step_errors)
  have unres: "es ! i = None \<and>
      run_before api rd (steps wfl) (p, dispatched w) (Suc i) =
        run_before api rd (steps wfl) (p, dispatched w) i"
    if "i < length (steps wfl)" "unresolved_at api rd (steps wfl) (p, dispatched w) i" for i
    unfolding es_def using that by (rule unresolved_at_returns)
  have full: "executedSteps (fst (executeWorkflow api wid opts w)) = length (steps wfl)"
    if i: "i < length (steps wfl)"
      and u: "unresolved_at api rd (steps wfl) (p, dispatched w) i"
      and others: "\<forall>j < length (steps wfl). j \<noteq> i \<longrightarrow> es ! j = None" for i
  proof -
    have "\<forall>j < length es. es ! j = None"
      using unres [OF i u] others len by (metis)
    then show ?thesis
      using all_returned [of es] cnt len by simp
  qed
  have four: "executedSteps (fst (executeWorkflow api wid opts w)) = 4"
    if l: "length (steps wfl) = 4"
      and u: "unresolved_at api rd (steps wfl) (p, dispatched w) 2"
      and e0: "es ! 0 = None" and e1: "es ! 1 = None" and e3: "es ! 3 = None"
  proof -
    have "es ! j = None" if "j < 4" "j \<noteq> 2" for j
    proof -
      from that have "j = 0 \<or> j = 1 \<or> j = 3" by arith
      then show ?thesis using e0 e1 e3 by auto
    qed
    then have "\<forall>j < length (steps wfl). j \<noteq> 2 \<longrightarrow> es ! j = None"
      using l by simp
    then show ?thesis
      using full [of 2] u l by simp
  qed
  show ?thesis
    unfolding es_def [symmetric]
    using cnt len unres full four by blast
qed


theorem unresolved_step_is_counted_witness:
  "find (\<lambda>x. wf_id x = ''workflow_1'') (recorded_workflows form_world) = Some four_step_workflow \<and>
   currentPage form_world = Inr form_page \<and>
   length (steps four_step_workflow) = 4 \<and>
   unresolved_at static_page None (steps four_step_workflow) (form_page, dispatched form_world) 2 \<and>
   step_errors static_page None (steps four_step_workflow) (form_page, dispatched form_world) =
     [None, None, None, None] \<and>
   executedSteps (fst (executeWorkflow static_page ''workflow_1'' default_options form_world)) = 4 \<and>
   step_errors brittle_page None (steps four_step_workflow) (form_page, dispatched form_world) =
     [None, Some ''element detached'', None, None] \<and>
   executedSteps (fst (executeWorkflow brittle_page ''workflow_1'' default_options form_world)) = 3"
proof -
  have h1: "find (\<lambda>x. wf_id x = ''workflow_1'') (recorded_workflows form_world) =
      Some four_step_workflow"
    by (simp add: form_world_def four_step_workflow_def)
  have h2: "currentPage form_world = Inr form_page"
    by (simp add: form_world_def)
  have h3: "None = (if useResumeData default_options then autoFillData form_world else None)"
    by (simp add: default_options_def)
  have l4: "length (steps four_step_workflow) = 4"
    by (simp add: four_step_workflow_def four_steps_def)
  have se: "step_errors static_page None (steps four_step_workflow)
      (form_page, dispatched form_world) = [None, None, None, None]"
    by (simp add: four_step_workflow_def form_world_def ex_defs)
  have seb: "step_errors brittle_page None (steps four_step_workflow)
      (form_page, dispatched form_world) = [None, Some ''element detached'', None, None]"
    by (simp add: four_step_workflow_def form_world_def four_steps_def fingerprint_def
        form_page_def dom_el_def brittle_page_def executeStep_def fillField_def
        clickElement_def findElement_def dispatch_def get_member_def js_or_str_def)
  have ua: "unresolved_at static_page None (steps four_step_workflow)
      (form_page, dispatched form_world) 2"
    by (simp add: unresolved_at_def run_before_def four_step_workflow_def form_world_def
        ex_defs)
  note T = unresolved_step_is_counted
    [OF h1 h2 h3, where api = static_page]
  note B = unresolved_step_is_counted
    [OF h1 h2 h3, where api = brittle_page]
  have h5: "length (steps four_step_workflow) = 4 \<and>
      unresolved_at static_page None (steps four_step_workflow)
        (form_page, dispatched form_world) 2 \<and>
      step_errors static_page None (steps four_step_workflow)
        (form_page, dispatched form_world) ! 0 = None \<and>
      step_errors static_page None (steps four_step_workflow)
        (form_page, dispatched form_world) ! 1 = None \<and>
      step_errors static_page None (steps four_step_workflow)
        (form_page, dispatched form_world) ! 3 = None"
    using l4 ua by (simp add: se)
  note g4 = T [THEN conjunct2, THEN conjunct2, THEN conjunct2, THEN conjunct2, THEN mp, OF h5]
  have g6: "executedSteps (fst (executeWorkflow brittle_page ''workflow_1'' default_options
      form_world)) = 3"
    using B [THEN conjunct1] by (simp add: seb)
  show ?thesis
    using h1 h2 l4 ua se g4 seb g6 by (intro conjI)
qed

text \<open>
  The scenario of claim C1 on the code: the element of the step with index 2 is not on
  the page, the other three steps succeed, and the result reports four executed steps,
  not three.
\<close>

theorem four_step_run_counts_four:
  "findElement static_page form_page (step_element (four_steps ! 2)) = Inr None \<and>
   executedSteps (fst (executeWorkflow static_page ''workflow_1'' default_options form_world)) = 4 \<and>
   executedSteps (fst (executeWorkflow static_page ''workflow_1'' default_options form_world)) \<noteq> 3 \<and>
   dispatched (snd (executeWorkflow static_page ''workflow_1'' default_options form_world)) =
     [InputTextElementNode (dom_el ''email'' ''user_email'' 0) ''a@b.c'',
      ClickElementNode (dom_el ''next'' ''next_btn'' 1),
      ClickElementNode (dom_el ''submit'' ''submit_btn'' 2)]"
proof -
  have "findElement static_page form_page (step_element (four_steps ! 2)) = Inr None"
    by (simp add: ex_defs)
  then show ?thesis
    by (simp add: form_world_execution)
qed

subsection \<open>Usage statistics\<close>

lemma wf_id_bump_stats: "wf_id (bump_stats ok w) = wf_id w"
  by (simp add: bump_stats_def Let_def)

lemma bump_stats_eq:
  "bump_stats ok w =
     w\<lparr>usageCount := usageCount w + 1,
       successRate := (successRate w * (real (usageCount w + 1) - 1) + (if ok then 1 else 0)) /
                      real (usageCount w + 1)\<rparr>"
  by (simp add: bump_stats_def Let_def)

lemma find_updateWorkflowStats:
  "find (\<lambda>x. wf_id x = wid) ws = Some wfl \<Longrightarrow>
   find (\<lambda>x. wf_id x = wid) (updateWorkflowStats wid ok ws) = Some (bump_stats ok wfl)"
  by (induction ws) (auto simp: wf_id_bump_stats)

lemma unit_average:
  fixes r :: real
  assumes "0 \<le> r" "r \<le> 1" "0 \<le> b" "b \<le> 1"
  shows "0 \<le> (r * real n + b) / real (n + 1) \<and> (r * real n + b) / real (n + 1) \<le> 1"
proof
  have "0 \<le> r * real n" using assms(1) by simp
  then show "0 \<le> (r * real n + b) / real (n + 1)"
    using assms(3) by simp
  have "r * real n \<le> 1 * real n"
    using assms(2) by (intro mult_right_mono) simp_all
  then have "r * real n + b \<le> real (n + 1)"
    using assms(4) by simp
  then show "(r * real n + b) / real (n + 1) \<le> 1"
    by (simp add: divide_le_eq)
qed

lemma bump_stats_unit:
  assumes "0 \<le> successRate w" "successRate w \<le> 1"
  shows "0 \<le> successRate (bump_stats ok w) \<and> successRate (bump_stats ok w) \<le> 1"
  using unit_average [of "successRate w" "if ok then 1 else 0" "usageCount w"] assms
  by (simp add: bump_stats_eq)

lemma rates_updateWorkflowStats:
  "rates_in_unit ws \<Longrightarrow> rates_in_unit (updateWorkflowStats wid ok ws)"
  unfolding rates_in_unit_def
  by (induction ws) (auto simp: bump_stats_unit)

lemma recorded_after_executeWorkflow:
  "recorded_workflows (snd (executeWorkflow api wid opts w)) = recorded_workflows w \<or>
   (\<exists>ok. recorded_workflows (snd (executeWorkflow api wid opts w)) =
      updateWorkflowStats wid ok (recorded_workflows w))"
  by (auto simp: executeWorkflow_def Let_def split_beta split: option.splits sum.splits)

lemma rates_executeWorkflow:
  "rates_in_unit (recorded_workflows w) \<Longrightarrow>
   rates_in_unit (recorded_workflows (snd (executeWorkflow api wid opts w)))"
  using recorded_after_executeWorkflow [of api wid opts w]
  by (auto intro: rates_updateWorkflowStats)

lemma rates_executeWorkflow_seq:
  "rates_in_unit (recorded_workflows w) \<Longrightarrow>
   rates_in_unit (recorded_workflows (executeWorkflow_seq api reqs w))"
proof (induction reqs arbitrary: w)
  case Nil
  then show ?case by simp
next
  case (Cons req reqs)
  obtain wid opts pg where req: "req = (wid, opts, pg)" by (cases req)
  have "rates_in_unit (recorded_workflows (w\<lparr>currentPage := pg\<rparr>))"
    using Cons.prems by simp
  then have "rates_in_unit
      (recorded_workflows (snd (executeWorkflow api wid opts (w\<lparr>currentPage := pg\<rparr>))))"
    by (rule rates_executeWorkflow)
  then show ?case
    unfolding req executeWorkflow_seq.simps by (rule Cons.IH)
qed

lemma find_saver_saveWorkflow:
  "find (\<lambda>x. p_id x = p_id pat) (saver_saveWorkflow pat ws) = Some pat"
  by (induction ws) auto

lemma rates_saver_saveWorkflow:
  "pattern_rates_in_unit ws \<Longrightarrow> 0 \<le> p_successRate pat \<and> p_successRate pat \<le> 1 \<Longrightarrow>
   pattern_rates_in_unit (saver_saveWorkflow pat ws)"
  unfolding pattern_rates_in_unit_def by (induction ws) auto

lemma find_Some_props: "find P xs = Some x \<Longrightarrow> P x \<and> x \<in> set xs"
  by (induction xs) (auto split: if_splits)

lemma rates_saver_updateWorkflowStats:
  assumes "pattern_rates_in_unit ws"
  shows "pattern_rates_in_unit (saver_updateWorkflowStats wid ok nowIso ws)"
proof (cases "find (\<lambda>x. p_id x = wid) ws")
  case None
  then show ?thesis using assms by (simp add: saver_updateWorkflowStats_def)
next
  case (Some pat)
  then have "pat \<in> set ws" by (auto dest: find_Some_props)
  then have "0 \<le> p_successRate pat \<and> p_successRate pat \<le> 1"
    using assms by (auto simp: pattern_rates_in_unit_def list_all_iff)
  then show ?thesis
    using assms Some
    by (auto simp: saver_updateWorkflowStats_def intro!: rates_saver_saveWorkflow)
qed

lemma saver_executeWorkflow_found:
  assumes "find (\<lambda>x. p_id x = wid) stored = Some pat"
  shows "saver_executeWorkflow acts wid useAI nowIso (stored, sw) =
     Inr (fst (projr (saver_executeWorkflow acts wid useAI nowIso (stored, sw))),
          saver_updateWorkflowStats wid
            (sv_steps (fst (projr (saver_executeWorkflow acts wid useAI nowIso (stored, sw)))) =
             length (p_steps pat)) nowIso stored,
          snd (snd (projr (saver_executeWorkflow acts wid useAI nowIso (stored, sw)))))"
  using assms by (simp add: saver_executeWorkflow_def Let_def split_beta)

lemma rates_saver_executeWorkflow_seq:
  "pattern_rates_in_unit (fst st) \<Longrightarrow>
   pattern_rates_in_unit (fst (saver_executeWorkflow_seq acts reqs st))"
proof (induction reqs arbitrary: st)
  case Nil
  then show ?case by simp
next
  case (Cons req reqs)
  obtain wid useAI nowIso where req: "req = (wid, useAI, nowIso)" by (cases req)
  obtain stored sw where st: "st = (stored, sw)" by (cases st)
  show ?case
  proof (cases "find (\<lambda>x. p_id x = wid) stored")
    case None
    then have "saver_executeWorkflow acts wid useAI nowIso st =
        Inl (''Workflow '' @ wid @ '' not found'')"
      by (simp add: saver_executeWorkflow_def st)
    then show ?thesis
      unfolding req using Cons.IH [OF Cons.prems] by simp
  next
    case (Some pat)
    note found = saver_executeWorkflow_found [OF Some, of acts useAI nowIso sw]
    have "pattern_rates_in_unit (saver_updateWorkflowStats wid
            (sv_steps (fst (projr (saver_executeWorkflow acts wid useAI nowIso (stored, sw)))) =
             length (p_steps pat)) nowIso stored)"
      using Cons.prems unfolding st by (intro rates_saver_updateWorkflowStats) simp
    then show ?thesis
      unfolding req st saver_executeWorkflow_seq.simps
      by (subst found) (simp add: Cons.IH)
  qed
qed


lemma executeWorkflow_found:
  assumes "find (\<lambda>x. wf_id x = wid) (recorded_workflows w) = Some wfl"
    and "currentPage w = Inr p"
  shows "recorded_workflows (snd (executeWorkflow api wid opts w)) =
     updateWorkflowStats wid
       (executedSteps (fst (executeWorkflow api wid opts w)) = length (steps wfl))
       (recorded_workflows w)"
  using assms by (simp add: executeWorkflow_def Let_def split_beta)

text \<open>
  The two update rules as the code has them. An execution by \<open>WorkflowExecutor\<close> that
  finds the workflow and obtains the page ends with \<open>usageCount\<close> one higher and
  \<open>successRate\<close> the running mean \<open>(old * (new count - 1) + outcome) / new count\<close>,
  with outcome 1 exactly when \<open>executedSteps\<close> is the number of steps. An execution by
  \<open>WorkflowSaver\<close> of a stored pattern ends with \<open>usageCount\<close> one higher and
  \<open>successRate\<close> half of old rate plus outcome. Under either rule, success rates in
  the unit interval stay there after any sequence of executions.
\<close>

theorem usage_statistics_update:
  "(find (\<lambda>x. wf_id x = wid) (recorded_workflows w) = Some wfl \<and> currentPage w = Inr p \<longrightarrow>
      find (\<lambda>x. wf_id x = wid) (recorded_workflows (snd (executeWorkflow api wid opts w))) =
        Some (wfl\<lparr>usageCount := usageCount wfl + 1,
                  successRate :=
                    (successRate wfl * (real (usageCount wfl + 1) - 1) +
                     (if executedSteps (fst (executeWorkflow api wid opts w)) = length (steps wfl)
                      then 1 else 0)) / real (usageCount wfl + 1)\<rparr>)) \<and>
   (find (\<lambda>x. p_id x = pid) stored = Some pat \<longrightarrow>
      (case saver_executeWorkflow acts pid useAI nowIso (stored, sw) of
         Inl err \<Rightarrow> False
       | Inr (res, stored', sw') \<Rightarrow>
           find (\<lambda>x. p_id x = pid) stored' =
             Some (pat\<lparr>p_usageCount := p_usageCount pat + 1,
                       p_lastUsed := nowIso,
                       p_successRate :=
                         (p_successRate pat +
                          (if sv_steps res = length (p_steps pat) then 1 else 0)) / 2\<rparr>))) \<and>
   (rates_in_unit (recorded_workflows w) \<longrightarrow>
      rates_in_unit (recorded_workflows (executeWorkflow_seq api reqs w))) \<and>
   (pattern_rates_in_unit stored \<longrightarrow>
      pattern_rates_in_unit (fst (saver_executeWorkflow_seq acts sreqs (stored, sw))))"
proof (intro conjI impI)
  assume a: "find (\<lambda>x. wf_id x = wid) (recorded_workflows w) = Some wfl \<and> currentPage w = Inr p"
  show "find (\<lambda>x. wf_id x = wid) (recorded_workflows (snd (executeWorkflow api wid opts w))) =
        Some (wfl\<lparr>usageCount := usageCount wfl + 1,
                  successRate :=
                    (successRate wfl * (real (usageCount wfl + 1) - 1) +
                     (if executedSteps (fst (executeWorkflow api wid opts w)) = length (steps wfl)
                      then 1 else 0)) / real (usageCount wfl + 1)\<rparr>)"
    using a
    by (simp only: executeWorkflow_found [of wid w wfl p] find_updateWorkflowStats bump_stats_eq)
next
  assume f: "find (\<lambda>x. p_id x = pid) stored = Some pat"
  have pid: "p_id pat = pid" using f by (auto dest: find_Some_props)
  show "case saver_executeWorkflow acts pid useAI nowIso (stored, sw) of
         Inl err \<Rightarrow> False
       | Inr (res, stored', sw') \<Rightarrow>
           find (\<lambda>x. p_id x = pid) stored' =
             Some (pat\<lparr>p_usageCount := p_usageCount pat + 1,
                       p_lastUsed := nowIso,
                       p_successRate :=
                         (p_successRate pat +
                          (if sv_steps res = length (p_steps pat) then 1 else 0)) / 2\<rparr>)"
  proof -
    have key: "find (\<lambda>x. p_id x = pid) (saver_updateWorkflowStats pid ok nowIso stored) =
        Some (pat\<lparr>p_usageCount := p_usageCount pat + 1, p_lastUsed := nowIso,
                  p_successRate := (p_successRate pat + (if ok then 1 else 0)) / 2\<rparr>)" for ok
      using find_saver_saveWorkflow
        [of "pat\<lparr>p_usageCount := p_usageCount pat + 1, p_lastUsed := nowIso,
                  p_successRate := (p_successRate pat + (if ok then 1 else 0)) / 2\<rparr>" stored]
      by (simp add: saver_updateWorkflowStats_def f pid)
    show ?thesis
      by (subst saver_executeWorkflow_found [OF f]) (simp only: sum.case prod.case key)
  qed
next
  assume "rates_in_unit (recorded_workflows w)"
  then show "rates_in_unit (recorded_workflows (executeWorkflow_seq api reqs w))"
    by (rule rates_executeWorkflow_seq)
next
  assume "pattern_rates_in_unit stored"
  then show "pattern_rates_in_unit (fst (saver_executeWorkflow_seq acts sreqs (stored, sw)))"
    using rates_saver_executeWorkflow_seq [of "(stored, sw)" acts sreqs] by simp
qed

theorem usage_statistics_update_witness:
  "find (\<lambda>x. wf_id x = ''workflow_1'') (recorded_workflows form_world) = Some four_step_workflow \<and>
   currentPage form_world = Inr form_page \<and>
   find (\<lambda>x. wf_id x = ''workflow_1'')
     (recorded_workflows (snd (executeWorkflow static_page ''workflow_1'' default_options form_world))) =
     Some (four_step_workflow\<lparr>usageCount := 1, successRate := 1\<rparr>) \<and>
   find (\<lambda>x. p_id x = ''linkedin_easy_apply_1'') [click_pattern] = Some click_pattern \<and>
   find (\<lambda>x. p_id x = ''linkedin_easy_apply_1'')
     (fst (snd (projr (saver_executeWorkflow failing_actions ''linkedin_easy_apply_1'' False
        ''2025-01-03'' ([click_pattern], ()))))) =
     Some (click_pattern\<lparr>p_usageCount := 3, p_lastUsed := ''2025-01-03'', p_successRate := 1 / 2\<rparr>) \<and>
   rates_in_unit (recorded_workflows form_world) \<and>
   rates_in_unit (recorded_workflows (executeWorkflow_seq static_page
     [(''workflow_1'', default_options, Inr form_page),
      (''workflow_1'', default_options, Inl ''closed'')] form_world)) \<and>
   pattern_rates_in_unit [click_pattern] \<and>
   pattern_rates_in_unit (fst (saver_executeWorkflow_seq failing_actions
     [(''linkedin_easy_apply_1'', False, ''2025-01-03'')] ([click_pattern], ())))"
proof -
  have h1: "find (\<lambda>x. wf_id x = ''workflow_1'') (recorded_workflows form_world) =
      Some four_step_workflow"
    by (simp add: form_world_def four_step_workflow_def)
  have h2: "currentPage form_world = Inr form_page"
    by (simp add: form_world_def)
  have h3: "find (\<lambda>x. p_id x = ''linkedin_easy_apply_1'') [click_pattern] = Some click_pattern"
    by (simp add: click_pattern_def)
  have h4: "rates_in_unit (recorded_workflows form_world)"
    by (simp add: rates_in_unit_def form_world_def four_step_workflow_def)
  have h5: "pattern_rates_in_unit [click_pattern]"
    by (simp add: pattern_rates_in_unit_def click_pattern_def)
  have sv: "saver_executeWorkflow failing_actions ''linkedin_easy_apply_1'' False ''2025-01-03''
       ([click_pattern], ()) =
     Inr (\<lparr>sv_success = False, sv_steps = 0,
           sv_message = ''Completed 0 steps with errors: Step 1: no page''\<rparr>,
          [click_pattern\<lparr>p_usageCount := 3, p_lastUsed := ''2025-01-03'',
                         p_successRate := 1 / 2\<rparr>], ())"
    by (simp add: saver_executeWorkflow_def saver_updateWorkflowStats_def click_pattern_def
        failing_actions_def truthy_def)
  have pid: "p_id click_pattern = ''linkedin_easy_apply_1''"
    by (simp add: click_pattern_def)
  note T = usage_statistics_update
      [where wid = "''workflow_1''" and w = form_world and wfl = four_step_workflow
         and p = form_page and api = static_page and opts = default_options
         and pid = "''linkedin_easy_apply_1''" and stored = "[click_pattern]"
         and pat = click_pattern and acts = failing_actions and useAI = False
         and nowIso = "''2025-01-03''" and sw = "()"
         and reqs = "[(''workflow_1'', default_options, Inr form_page),
                      (''workflow_1'', default_options, Inl ''closed'')]"
         and sreqs = "[(''linkedin_easy_apply_1'', False, ''2025-01-03'')]"]
  note c1 = T [THEN conjunct1, THEN mp, OF conjI [OF h1 h2]]
  note c2 = T [THEN conjunct2, THEN conjunct1, THEN mp, OF h3]
  note c3 = T [THEN conjunct2, THEN conjunct2, THEN conjunct1, THEN mp, OF h4]
  note c4 = T [THEN conjunct2, THEN conjunct2, THEN conjunct2, THEN mp, OF h5]
  have g3: "find (\<lambda>x. wf_id x = ''workflow_1'')
     (recorded_workflows (snd (executeWorkflow static_page ''workflow_1'' default_options form_world))) =
     Some (four_step_workflow\<lparr>usageCount := 1, successRate := 1\<rparr>)"
    by (simp add: form_world_execution four_step_workflow_def)
  have g5: "find (\<lambda>x. p_id x = ''linkedin_easy_apply_1'')
     (fst (snd (projr (saver_executeWorkflow failing_actions ''linkedin_easy_apply_1'' False
        ''2025-01-03'' ([click_pattern], ()))))) =
     Some (click_pattern\<lparr>p_usageCount := 3, p_lastUsed := ''2025-01-03'', p_successRate := 1 / 2\<rparr>)"
    using c2 by (simp add: sv pid)
  show ?thesis
    using h1 h2 g3 h3 g5 h4 c3 h5 c4 c1 by (intro conjI)
qed

text \<open>
  Claim C2 on the code. After an execution the success rate is to be the running mean
  \<open>(old * (new count - 1) + outcome) / new count\<close>. \<open>WorkflowSaver\<close> increments
  \<open>usageCount\<close> but divides by 2 whatever the count: a stored pattern used twice with
  rate 1 whose only step throws ends with count 3 and rate 1/2, where the running mean
  is 2/3.
\<close>

theorem saver_rate_is_not_the_running_mean:
  "saver_executeWorkflow failing_actions ''linkedin_easy_apply_1'' False ''2025-01-03''
       ([click_pattern], ()) =
     Inr (\<lparr>sv_success = False, sv_steps = 0,
           sv_message = ''Completed 0 steps with errors: Step 1: no page''\<rparr>,
          [click_pattern\<lparr>p_usageCount := 3, p_lastUsed := ''2025-01-03'',
                         p_successRate := 1 / 2\<rparr>], ()) \<and>
   p_usageCount click_pattern = 2 \<and> p_successRate click_pattern = 1 \<and>
   length (p_steps click_pattern) = 1 \<and>
   (1 / 2 :: real) \<noteq> (1 * (3 - 1) + 0) / 3"
  by (simp add: saver_executeWorkflow_def saver_updateWorkflowStats_def click_pattern_def
      failing_actions_def truthy_def)

subsection \<open>Stopping a recorder that is not recording\<close>

text \<open>
  Claim C10. A recorder whose \<open>isRecording\<close> flag is false answers \<open>success: false\<close>
  and leaves the recorder and the world as they are: no \<open>page.evaluate\<close> call, nothing
  stored. The stop\_recording action builds a new recorder, whose flag is false, so the
  action leaves the world unchanged and reports failure (or rejects when the page cannot
  be obtained for the screenshot).
\<close>

theorem stopRecording_not_recording:
  "(\<not> isRecording r \<longrightarrow>
      stopRecording workflowName now today r w =
        (\<lparr>stop_success = False, workflow = None\<rparr>, r, w)) \<and>
   \<not> isRecording new_WorkflowRecorder \<and>
   stopRecordingAction workflowName now today w =
     ((case page_recording w of
         Inl err \<Rightarrow> Inl err
       | Inr pg \<Rightarrow> Inr \<lparr>ao_success = False,
                        ao_message = ''No recording found or recording was empty''\<rparr>), w)"
  by (auto simp: stopRecording_def stopRecordingAction_def new_WorkflowRecorder_def
      split: sum.splits)

theorem stopRecording_not_recording_witness:
  "\<not> isRecording new_WorkflowRecorder \<and>
   stopRecording None 1700000009000 ''1/2/2025'' new_WorkflowRecorder recording_world =
     (\<lparr>stop_success = False, workflow = None\<rparr>, new_WorkflowRecorder, recording_world) \<and>
   saved_workflows (snd (stopRecordingAction None 1700000009000 ''1/2/2025'' recording_world)) = [] \<and>
   evaluations (snd (stopRecordingAction None 1700000009000 ''1/2/2025'' recording_world)) = 0 \<and>
   map platform (saved_workflows (snd (snd
     (stopRecording None 1700000009000 ''1/2/2025''
        (new_WorkflowRecorder\<lparr>isRecording := True\<rparr>) recording_world)))) = [''linkedin'']"
proof -
  have h: "\<not> isRecording new_WorkflowRecorder"
    by (simp add: new_WorkflowRecorder_def)
  note T = stopRecording_not_recording
    [where r = new_WorkflowRecorder and workflowName = None and now = 1700000009000
       and today = "''1/2/2025''" and w = recording_world]
  note c1 = T [THEN conjunct1, THEN mp, OF h]
  note c3 = T [THEN conjunct2, THEN conjunct2]
  have g3: "saved_workflows (snd (stopRecordingAction None 1700000009000 ''1/2/2025'' recording_world)) = []"
    unfolding c3 by (simp add: recording_world_def)
  have g4: "evaluations (snd (stopRecordingAction None 1700000009000 ''1/2/2025'' recording_world)) = 0"
    unfolding c3 by (simp add: recording_world_def)
  have g5: "map platform (saved_workflows (snd (snd
     (stopRecording None 1700000009000 ''1/2/2025''
        (new_WorkflowRecorder\<lparr>isRecording := True\<rparr>) recording_world)))) = [''linkedin'']"
    by (simp add: stopRecording_def recording_world_def new_WorkflowRecorder_def
        detectPlatform_def Let_def)
  show ?thesis
    using h c1 g3 g4 g5 by (intro conjI)
qed

subsection \<open>The question hash\<close>

lemma normalize_q1:
  "normalize_question ''Are you authorized to work in the US?'' =
     ''are you authorized to work in the us''"
  by code_simp

lemma normalize_q2:
  "normalize_question ''Do you have work authorization?'' = ''do you have work authorization''"
  by code_simp

lemma concepts_q1:
  "extractKeyConcepts ''are you authorized to work in the us'' = [''work_authorization'']"
  by code_simp

lemma concepts_q2:
  "extractKeyConcepts ''do you have work authorization'' = [''work_authorization'']"
  by code_simp

lemma btoa_work_authorization:
  "take 16 (btoa (join ''_'' (sort_strings [''work_authorization'']))) = ''d29ya19hdXRob3Jp''"
  by code_simp

lemma hash_why: "generateQuestionHash ''Why?'' = ''Z2VuZXJhbA==''"
  by code_simp


lemma hash_q1:
  "generateQuestionHash ''Are you authorized to work in the US?'' = ''d29ya19hdXRob3Jp''"
  by (simp only: generateQuestionHash_def Let_def normalize_q1 concepts_q1 btoa_work_authorization)

lemma hash_q2:
  "generateQuestionHash ''Do you have work authorization?'' = ''d29ya19hdXRob3Jp''"
  by (simp only: generateQuestionHash_def Let_def normalize_q2 concepts_q2 btoa_work_authorization)

lemma personalize_Yes: "personalizeResponse ''Yes'' ctx = ''Yes''"
  by (cases ctx) (simp_all add: personalizeResponse_def)

subsection \<open>Cache capacity\<close>

lemma length_update_le: "length (AList.update k v xs) \<le> Suc (length xs)"
  by (induction xs) auto

lemma length_rebuild:
  "length (fold (\<lambda>(h, e) c. AList.update h e c) xs acc) \<le> length acc + length xs"
proof (induction xs arbitrary: acc)
  case Nil
  show ?case by simp
next
  case (Cons x xs)
  obtain h e where x: "x = (h, e)" by (cases x)
  have "length (fold (\<lambda>(h, e) c. AList.update h e c) xs (AList.update h e acc)) \<le>
      length (AList.update h e acc) + length xs"
    by (rule Cons.IH)
  also have "\<dots> \<le> Suc (length acc) + length xs"
    using length_update_le [of h e acc] by simp
  finally show ?case by (simp add: x)
qed

lemma length_cleanupCache: "length (cleanupCache now cache) \<le> MAX_CACHE_SIZE"
proof -
  define valid where "valid = filter (\<lambda>(h, e). now - cr_timestamp e < CACHE_EXPIRY) cache"
  define kept where "kept = (if length valid > MAX_CACHE_SIZE
      then take MAX_CACHE_SIZE (sort_key (\<lambda>(h, e). - score now e) valid) else valid)"
  have "length kept \<le> MAX_CACHE_SIZE"
    by (simp add: kept_def)
  moreover have "length (fold (\<lambda>(h, e) c. AList.update h e c) kept []) \<le> length kept"
    using length_rebuild [of kept "[]"] by simp
  moreover have "cleanupCache now cache = fold (\<lambda>(h, e) c. AList.update h e c) kept []"
    by (simp add: cleanupCache_def Let_def kept_def valid_def)
  ultimately show ?thesis by simp
qed

lemma length_cacheResponse:
  "length (cacheResponse question resp conf ctx now cache) \<le> MAX_CACHE_SIZE"
  by (simp add: cacheResponse_def Let_def length_cleanupCache)

lemma update_fresh: "k \<notin> fst ` set xs \<Longrightarrow> AList.update k v xs = xs @ [(k, v)]"
  by (induction xs) auto

lemma rebuild_distinct:
  "distinct (map fst (acc @ xs)) \<Longrightarrow>
   fold (\<lambda>(h, e) c. AList.update h e c) xs acc = acc @ xs"
proof (induction xs arbitrary: acc)
  case Nil
  show ?case by simp
next
  case (Cons x xs)
  obtain h e where x: "x = (h, e)" by (cases x)
  have fresh: "h \<notin> fst ` set acc"
    using Cons.prems by (auto simp: x)
  have "distinct (map fst ((acc @ [(h, e)]) @ xs))"
    using Cons.prems by (simp add: x)
  then have "fold (\<lambda>(h, e) c. AList.update h e c) xs (acc @ [(h, e)]) = (acc @ [(h, e)]) @ xs"
    by (rule Cons.IH)
  then show ?case
    by (simp add: x update_fresh [OF fresh])
qed

lemma distinct_keys_sort_key:
  "distinct (map fst (sort_key f xs)) = distinct (map fst xs)"
  by (simp add: distinct_map)

lemma distinct_keys_take: "distinct (map fst xs) \<Longrightarrow> distinct (map fst (take n xs))"
  by (simp add: take_map [symmetric] distinct_take)

lemma distinct_keys_filter: "distinct (map fst xs) \<Longrightarrow> distinct (map fst (filter P xs))"
  by (simp add: distinct_map_filter)

lemma distinct_cleanupCache:
  assumes "distinct (map fst cache)"
  shows "distinct (map fst (cleanupCache now cache))"
proof -
  define valid where "valid = filter (\<lambda>(h, e). now - cr_timestamp e < CACHE_EXPIRY) cache"
  define kept where "kept = (if length valid > MAX_CACHE_SIZE
      then take MAX_CACHE_SIZE (sort_key (\<lambda>(h, e). - score now e) valid) else valid)"
  have v: "distinct (map fst valid)"
    unfolding valid_def using assms by (rule distinct_keys_filter)
  have k: "distinct (map fst kept)"
    unfolding kept_def using v
    by (auto intro!: distinct_keys_take simp: distinct_keys_sort_key)
  have "cleanupCache now cache = fold (\<lambda>(h, e) c. AList.update h e c) kept []"
    by (simp add: cleanupCache_def Let_def kept_def valid_def)
  also have "\<dots> = kept"
    using rebuild_distinct [of "[]" kept] k by simp
  finally show ?thesis using k by simp
qed

lemma distinct_cacheResponse:
  "distinct (map fst cache) \<Longrightarrow>
   distinct (map fst (cacheResponse question resp conf ctx now cache))"
  by (simp add: cacheResponse_def Let_def distinct_cleanupCache distinct_update)

lemma length_cacheResponse_seq:
  "length (cacheResponse_seq (ins # inserts) cache) \<le> MAX_CACHE_SIZE"
proof (induction inserts arbitrary: ins cache)
  case Nil
  obtain q r c x n where "ins = (q, r, c, x, n)" by (cases ins)
  then show ?case by (simp add: length_cacheResponse)
next
  case (Cons i inserts)
  obtain q r c x n where "ins = (q, r, c, x, n)" by (cases ins)
  then show ?case using Cons.IH [of i] by simp
qed

lemma fst_stale_entry: "fst (stale_entry now i) = replicate (Suc i) CHR ''k''"
  by (simp add: stale_entry_def)

lemma keys_full_cache:
  "map fst (full_cache now) = map (\<lambda>i. replicate (Suc i) CHR ''k'') [0..<1000]"
  by (simp add: full_cache_def fst_stale_entry comp_def)

lemma distinct_full_cache: "distinct (map fst (full_cache now))"
proof -
  have "inj_on (\<lambda>i. replicate (Suc i) CHR ''k'') (set [0..<1000])"
  proof (rule inj_onI)
    fix i j :: nat
    assume "replicate (Suc i) CHR ''k'' = replicate (Suc j) CHR ''k''"
    then have "length (replicate (Suc i) CHR ''k'') = length (replicate (Suc j) CHR ''k'')"
      by (rule arg_cong)
    then show "i = j" by simp
  qed
  then show ?thesis
    unfolding keys_full_cache by (simp add: distinct_map)
qed

text \<open>
  Claim C3. After \<open>cacheResponse\<close>, cleanup included, the cache has at most 1000
  entries, whatever the cache was before; the same holds after any non-empty sequence of
  inserts, so in particular after 1001 of them. The keys stay distinct, so the length of
  the list is the size of the map.
\<close>

theorem cache_capacity_after_insert:
  "length (cacheResponse question resp conf ctx now cache) \<le> 1000 \<and>
   length (cacheResponse_seq (ins # inserts) cache) \<le> 1000 \<and>
   (distinct (map fst cache) \<longrightarrow>
      distinct (map fst (cacheResponse question resp conf ctx now cache)))"
  using length_cacheResponse [of question resp conf ctx now cache]
    length_cacheResponse_seq [of ins inserts cache]
    distinct_cacheResponse [of cache question resp conf ctx now]
  by (simp add: MAX_CACHE_SIZE_def)

theorem cache_capacity_after_insert_witness:
  "distinct (map fst (full_cache 0)) \<and>
   length (cacheResponse ''Why?'' ''Because'' 1 None 0 (full_cache 0)) \<le> 1000 \<and>
   length (cacheResponse_seq
     [(''Why?'', ''Because'', 1, None, 0),
      (''Do you have work authorization?'', ''Yes'', 1, None, 5)] (full_cache 0)) \<le> 1000 \<and>
   distinct (map fst (cacheResponse ''Why?'' ''Because'' 1 None 0 (full_cache 0)))"
proof -
  note T = cache_capacity_after_insert
    [where question = "''Why?''" and resp = "''Because''" and conf = 1 and ctx = None
       and now = 0 and cache = "full_cache 0" and ins = "(''Why?'', ''Because'', 1, None, 0)"
       and inserts = "[(''Do you have work authorization?'', ''Yes'', 1, None, 5)]"]
  have h: "distinct (map fst (full_cache 0))"
    by (rule distinct_full_cache)
  show ?thesis
    using h T [THEN conjunct1] T [THEN conjunct2, THEN conjunct1]
      T [THEN conjunct2, THEN conjunct2, THEN mp, OF h]
    by (intro conjI)
qed

subsection \<open>Eviction order\<close>

lemma why_not_in_full_cache: "''Z2VuZXJhbA=='' \<notin> fst ` set (full_cache now)"
proof
  assume "''Z2VuZXJhbA=='' \<in> fst ` set (full_cache now)"
  then have "''Z2VuZXJhbA=='' \<in> set (map fst (full_cache now))" by simp
  then obtain i where "''Z2VuZXJhbA=='' = replicate (Suc i) CHR ''k''"
    unfolding keys_full_cache by auto
  then show False by simp
qed

lemma CACHE_EXPIRY_pos: "0 < CACHE_EXPIRY"
  by (simp add: CACHE_EXPIRY_def)

lemma length_full_cache: "length (full_cache now) = 1000"
  by (simp add: full_cache_def)

lemma valid_full_cache:
  "filter (\<lambda>(h, e). now - cr_timestamp e < CACHE_EXPIRY) (full_cache now) = full_cache now"
  by (simp add: full_cache_def stale_entry_def CACHE_EXPIRY_def filter_map comp_def)

lemma scores_full_cache:
  "map (\<lambda>(h, e). - score now e) (full_cache now) = replicate 1000 (- 2)"
  by (simp add: full_cache_def stale_entry_def score_def comp_def map_replicate_const)

lemma spec_scores_full_cache:
  "map (\<lambda>(h, e). spec_score now e) (full_cache now) = replicate 1000 0"
  by (simp add: full_cache_def stale_entry_def spec_score_def comp_def map_replicate_const)

lemma insert_into_full_cache:
  "cacheResponse ''Why?'' ''Because'' 1 None now (full_cache now) = full_cache now"
proof -
  define fresh where "fresh =
    \<lparr>hash = ''Z2VuZXJhbA=='', questionText = take 200 ''Why?'', response = ''Because'',
     confidence = 1, cr_timestamp = now, lastUsed = now, useCount = 1,
     cr_context = map_option sanitizeContext None\<rparr>"
  define cache1 where "cache1 = full_cache now @ [(''Z2VuZXJhbA=='', fresh)]"
  have upd: "AList.update ''Z2VuZXJhbA=='' fresh (full_cache now) = cache1"
    unfolding cache1_def by (rule update_fresh) (rule why_not_in_full_cache)
  have len: "length cache1 = 1001"
    by (simp add: cache1_def length_full_cache)
  have valid: "filter (\<lambda>(h, e). now - cr_timestamp e < CACHE_EXPIRY) cache1 = cache1"
    by (simp add: cache1_def valid_full_cache fresh_def CACHE_EXPIRY_pos)
  have fs: "- score now fresh = - 1"
    by (simp add: fresh_def score_def)
  have "map (\<lambda>(h, e). - score now e) cache1 = replicate 1000 (- 2) @ [- 1]"
    by (simp add: cache1_def scores_full_cache fs)
  then have "sorted (map (\<lambda>(h, e). - score now e) cache1)"
    by (simp add: sorted_append)
  then have srt: "sort_key (\<lambda>(h, e). - score now e) cache1 = cache1"
    by (rule sort_key_id_if_sorted)
  have tk: "take MAX_CACHE_SIZE cache1 = full_cache now"
    by (simp add: cache1_def MAX_CACHE_SIZE_def length_full_cache)
  have rb: "fold (\<lambda>(h, e) c. AList.update h e c) (full_cache now) [] = full_cache now"
    using rebuild_distinct [of "[]" "full_cache now"] distinct_full_cache by simp
  have big: "length cache1 > MAX_CACHE_SIZE"
    by (simp add: len MAX_CACHE_SIZE_def)
  have cl: "cleanupCache now cache1 = full_cache now"
    by (simp add: cleanupCache_def Let_def valid big srt tk rb)
  show ?thesis
    unfolding cacheResponse_def Let_def hash_why fresh_def [symmetric] upd
    by (simp add: big cl)
qed

text \<open>
  Claim C4 on the code. Into a full cache of 1000 entries, each used once and last used
  1000 seconds ago, a new answer is inserted. Under the score of the specification
  (use count minus age) the new entry scores 1 and every old one 0, so an old entry
  should go. The comparator adds the age: the old entries score 2, the new one 1, and
  the cleanup drops the entry just inserted; the cache is as before and the question
  inserted is a miss.
\<close>

theorem cleanup_evicts_the_fresh_entry:
  "cacheResponse ''Why?'' ''Because'' 1 None now (full_cache now) = full_cache now \<and>
   fst (getCachedResponse ''Why?'' None now
          (cacheResponse ''Why?'' ''Because'' 1 None now (full_cache now))) = None \<and>
   map (\<lambda>(h, e). spec_score now e) (full_cache now) = replicate 1000 0 \<and>
   spec_score now
     \<lparr>hash = generateQuestionHash ''Why?'', questionText = ''Why?'', response = ''Because'',
      confidence = 1, cr_timestamp = now, lastUsed = now, useCount = 1, cr_context = None\<rparr> = 1 \<and>
   map (\<lambda>(h, e). score now e) (full_cache now) = replicate 1000 2 \<and>
   score now
     \<lparr>hash = generateQuestionHash ''Why?'', questionText = ''Why?'', response = ''Because'',
      confidence = 1, cr_timestamp = now, lastUsed = now, useCount = 1, cr_context = None\<rparr> = 1"
proof -
  have miss: "map_of (full_cache now) ''Z2VuZXJhbA=='' = None"
    using why_not_in_full_cache [of now] by (simp add: map_of_eq_None_iff)
  have g2: "fst (getCachedResponse ''Why?'' None now
          (cacheResponse ''Why?'' ''Because'' 1 None now (full_cache now))) = None"
    unfolding insert_into_full_cache by (simp add: getCachedResponse_def hash_why miss)
  have g5: "map (\<lambda>(h, e). score now e) (full_cache now) = replicate 1000 2"
    by (simp add: full_cache_def stale_entry_def score_def comp_def map_replicate_const)
  have g4: "spec_score now
     \<lparr>hash = generateQuestionHash ''Why?'', questionText = ''Why?'', response = ''Because'',
      confidence = 1, cr_timestamp = now, lastUsed = now, useCount = 1, cr_context = None\<rparr> = 1"
    by (simp add: spec_score_def)
  have g6: "score now
     \<lparr>hash = generateQuestionHash ''Why?'', questionText = ''Why?'', response = ''Because'',
      confidence = 1, cr_timestamp = now, lastUsed = now, useCount = 1, cr_context = None\<rparr> = 1"
    by (simp add: score_def)
  show ?thesis
    using insert_into_full_cache g2 spec_scores_full_cache g4 g5 g6 by (intro conjI)
qed

subsection \<open>Rephrased questions\<close>

text \<open>
  Claim C5. The two phrasings have the concept list \<open>work_authorization\<close> and the same
  hash. On the empty cache the first question is a miss. After the answer \<open>Yes\<close> is put
  for the first question into a cache below capacity, a lookup of the rephrased question
  within the expiry time returns \<open>Yes\<close>.
\<close>

theorem rephrased_question_hits:
  assumes "length cache < 1000" and "t_get - t_put \<le> CACHE_EXPIRY"
  shows "generateQuestionHash ''Are you authorized to work in the US?'' =
           generateQuestionHash ''Do you have work authorization?'' \<and>
         extractKeyConcepts (normalize_question ''Are you authorized to work in the US?'') =
           [''work_authorization''] \<and>
         extractKeyConcepts (normalize_question ''Do you have work authorization?'') =
           [''work_authorization''] \<and>
         fst (getCachedResponse ''Are you authorized to work in the US?'' ctx_before t_before []) = None \<and>
         fst (getCachedResponse ''Do you have work authorization?'' ctx_get t_get
                (cacheResponse ''Are you authorized to work in the US?'' ''Yes'' conf ctx_put t_put
                   cache)) = Some ''Yes''"
proof -
  define entry where "entry =
    \<lparr>hash = ''d29ya19hdXRob3Jp'',
     questionText = take 200 ''Are you authorized to work in the US?'', response = ''Yes'',
     confidence = conf, cr_timestamp = t_put, lastUsed = t_put, useCount = 1,
     cr_context = map_option sanitizeContext ctx_put\<rparr>"
  have small: "\<not> length (AList.update ''d29ya19hdXRob3Jp'' entry cache) > MAX_CACHE_SIZE"
    using assms(1) length_update_le [of "''d29ya19hdXRob3Jp''" entry cache]
    by (simp add: MAX_CACHE_SIZE_def)
  have put: "cacheResponse ''Are you authorized to work in the US?'' ''Yes'' conf ctx_put t_put cache =
      AList.update ''d29ya19hdXRob3Jp'' entry cache"
    unfolding cacheResponse_def Let_def hash_q1 entry_def [symmetric] using small by simp
  have look: "map_of (AList.update ''d29ya19hdXRob3Jp'' entry cache) ''d29ya19hdXRob3Jp'' =
      Some entry"
    by (simp add: update_conv')
  have get: "fst (getCachedResponse ''Do you have work authorization?'' ctx_get t_get
      (AList.update ''d29ya19hdXRob3Jp'' entry cache)) = Some ''Yes''"
    unfolding getCachedResponse_def Let_def hash_q2 look
    using assms(2) by (simp add: entry_def personalize_Yes)
  have before: "fst (getCachedResponse ''Are you authorized to work in the US?'' ctx_before t_before []) = None"
    by (simp add: getCachedResponse_def)
  have same: "generateQuestionHash ''Are you authorized to work in the US?'' =
      generateQuestionHash ''Do you have work authorization?''"
    by (simp only: hash_q1 hash_q2)
  have c1: "extractKeyConcepts (normalize_question ''Are you authorized to work in the US?'') =
      [''work_authorization'']"
    by (simp only: normalize_q1 concepts_q1)
  have c2: "extractKeyConcepts (normalize_question ''Do you have work authorization?'') =
      [''work_authorization'']"
    by (simp only: normalize_q2 concepts_q2)
  show ?thesis
    using same c1 c2 before get unfolding put by (intro conjI)
qed

theorem rephrased_question_hits_witness:
  "length ([] :: Cache) < 1000 \<and>
   (1700000060000 :: int) - 1700000000000 \<le> CACHE_EXPIRY \<and>
   fst (getCachedResponse ''Are you authorized to work in the US?'' None 1699999999999 []) = None \<and>
   fst (getCachedResponse ''Do you have work authorization?'' None 1700000060000
          (cacheResponse ''Are you authorized to work in the US?'' ''Yes'' 1 None 1700000000000
             [])) = Some ''Yes''"
proof -
  have h1: "length ([] :: Cache) < 1000"
    by simp
  have h2: "(1700000060000 :: int) - 1700000000000 \<le> CACHE_EXPIRY"
    by (simp add: CACHE_EXPIRY_def)
  note T = rephrased_question_hits
    [OF h1 h2, where ctx_before = None and t_before = 1699999999999 and ctx_get = None and conf = 1
       and ctx_put = None]
  show ?thesis
    using h1 h2 T [THEN conjunct2, THEN conjunct2, THEN conjunct2, THEN conjunct1]
      T [THEN conjunct2, THEN conjunct2, THEN conjunct2, THEN conjunct2]
    by (intro conjI)
qed

end
